theory Spec2Isabelle
  imports Complex_Main "HOL-Library.Sublist"
begin

section \<open>The order processor: data model\<close>

text \<open>
  The development embeds \<^verbatim>\<open>internal/processor/processor.go\<close> and the
  \<^verbatim>\<open>models.Order\<close> struct.  Go strings are byte sequences, so they are
  \<^typ>\<open>string\<close> (lists of 8-bit characters).  Go's \<^verbatim>\<open>int\<close> is modelled by
  \<^typ>\<open>int\<close>: the only arithmetic on it is \<^verbatim>\<open>retryCount+1\<close> below the
  bound \<^verbatim>\<open>p.Retries\<close> and \<^verbatim>\<open>lineNum++\<close>, neither of which can leave the
  64-bit range.  The one product that can leave it, the \<^verbatim>\<open>time.Duration\<close>
  handed to \<^verbatim>\<open>time.Sleep\<close>, has its wrap-around written out.
\<close>

text \<open>\<^verbatim>\<open>models.Order\<close>.  The price is a JSON number decoded into a float64 and the
  timestamp a \<^verbatim>\<open>time.Time\<close>; both are only carried along (the price is printed in
  one log line), so they are kept as a rational and as nanoseconds since the epoch.\<close>

record Order =
  OrderID :: string
  Symbol :: string
  Quantity :: int
  Price :: rat
  Side :: string
  Timestamp :: int

text \<open>The configuration fields of \<^verbatim>\<open>Processor\<close>.  The logger, the HTTP client and
  the output file handle are the environment below.\<close>

record Processor =
  InputFile :: string
  OutputFile :: string
  Symbol :: string
  Side :: string
  Retries :: int
  Timeout :: int
  Insecure :: bool
  BaseURL :: string

text \<open>What \<^verbatim>\<open>scanner.Err()\<close> can report after the scanning loop.  The scanner is
  made by \<^verbatim>\<open>bufio.NewScanner(file)\<close> and keeps the default token limit
  \<^verbatim>\<open>bufio.MaxScanTokenSize\<close> of 64 KiB, so it stops either at a failed read of the
  file or, with \<^verbatim>\<open>bufio.ErrTooLong\<close>, at a line that does not fit the limit: a
  condition of the content, with no failed read.\<close>

datatype scan_error =
    ErrTooLong                    \<comment> \<open>"bufio.Scanner: token too long"\<close>
  | ReadFailure string            \<comment> \<open>the error of the failed \<^verbatim>\<open>Read\<close>\<close>

text \<open>Every \<^verbatim>\<open>error\<close> value the package creates or passes on.\<close>

datatype error =
    RequestError string           \<comment> \<open>the error returned by \<^verbatim>\<open>p.client.Get\<close>\<close>
  | Non2XX int                    \<comment> \<open>"received non-2XX response: %d"\<close>
  | ReadBodyError string          \<comment> \<open>"failed to read response body: %w"\<close>
  | WriteOutputError string       \<comment> \<open>"failed to write to output file: %w"\<close>
  | OpenInputError string         \<comment> \<open>"failed to open input file: %w"\<close>
  | CreateOutputError string      \<comment> \<open>"failed to create output file: %w"\<close>
  | ReadInputError scan_error     \<comment> \<open>"error reading input file: %w"\<close>

text \<open>The log calls of the package, one constructor per format string, with the
  arguments of the call.\<close>

datatype level = Debug | Info | Warn | Error

datatype message =
    LineNotJSON int string            \<comment> \<open>"Line %d is not valid JSON: %v"\<close>
  | ProcessingOrder Order             \<comment> \<open>"Processing order %s: %s %d %s at $%.2f"\<close>
  | AddingToRetryQueue string error   \<comment> \<open>"Failed to process order %s, adding to retry queue: %v"\<close>
  | CurrentRetryCount int int         \<comment> \<open>"Current retry count: %d, Max retries: %d"\<close>
  | RequestFailed string int int string  \<comment> \<open>"Request failed for order %s (retry %d/%d): %v"\<close>
  | Processed string                  \<comment> \<open>"Successfully processed order %s"\<close>
  | ProcessingQueue nat               \<comment> \<open>"Processing retry queue with %d orders"\<close>
  | RetryAttempt int int string       \<comment> \<open>"Retry attempt %d/%d for order %s"\<close>
  | RetryFailed string error          \<comment> \<open>"Retry failed for order %s: %v"\<close>
  | ExceededRetries string            \<comment> \<open>"Exceeded maximum retries for order %s"\<close>

text \<open>What the run does to the outside world, in the order in which it does it: the
  requests it sends, the sleeps it takes (the \<^verbatim>\<open>time.Duration\<close>, in nanoseconds)
  and the log calls it makes.\<close>

datatype event =
    Get string
  | Sleep int
  | Log level message

subsection \<open>The environment\<close>

text \<open>The outcome of \<^verbatim>\<open>p.client.Get(url)\<close>: an error, or a response with its status
  code and the outcome of \<^verbatim>\<open>io.ReadAll(resp.Body)\<close> (\<open>Inl\<close> the read error,
  \<open>Inr\<close> the body).\<close>

datatype http_result =
    GetFailed string
  | Response int "string + string"

text \<open>The outcome of one \<^verbatim>\<open>fmt.Fprintf\<close> on the output file: everything written,
  or an error after the first \<open>n\<close> bytes.\<close>

datatype write_result =
    Written
  | WriteFailed nat string

text \<open>Everything the package asks of the operating system, the network and the
  libraries: whether \<^verbatim>\<open>os.Open\<close> and \<^verbatim>\<open>os.Create\<close> fail, the lines the
  \<^verbatim>\<open>bufio.Scanner\<close> yields before \<^verbatim>\<open>Scan\<close> returns false and the value of
  \<^verbatim>\<open>scanner.Err()\<close> afterwards, \<^verbatim>\<open>json.Unmarshal\<close> into an \<^verbatim>\<open>Order\<close>, the
  answer to the \<open>n\<close>-th request of the run, and the outcome of the \<open>n\<close>-th write to
  the output file.\<close>

record system =
  open_error :: "string option"
  create_error :: "string option"
  scanned_lines :: "string list"
  scanner_err :: "scan_error option"
  unmarshal :: "string \<Rightarrow> string + Order"
  client_get :: "nat \<Rightarrow> string \<Rightarrow> http_result"
  fprintf :: "nat \<Rightarrow> string \<Rightarrow> write_result"

text \<open>The state of the run: how many requests and writes have been made, the
  contents of the output file, and the events so far.\<close>

record world =
  requests :: nat
  writes :: nat
  output_file :: string
  trace :: "event list"

definition emit :: "event list \<Rightarrow> world \<Rightarrow> world" where
  "emit es w = w\<lparr>trace := trace w @ es\<rparr>"

definition request :: "string \<Rightarrow> world \<Rightarrow> world" where
  "request url w = w\<lparr>requests := Suc (requests w), trace := trace w @ [Get url]\<rparr>"

definition append_output :: "string \<Rightarrow> world \<Rightarrow> world" where
  "append_output s w = w\<lparr>writes := Suc (writes w), output_file := output_file w @ s\<rparr>"

section \<open>Library functions\<close>

subsection \<open>\<^verbatim>\<open>strings.TrimRight\<close> with a one-byte ASCII cutset\<close>

text \<open>\<^verbatim>\<open>strings.TrimRight(s, "/")\<close> takes the single-byte path of the library, which
  drops the last byte while it equals the byte of the cutset.\<close>

definition trimRightByte :: "string \<Rightarrow> char \<Rightarrow> string" where
  "trimRightByte s c = rev (dropWhile (\<lambda>x. x = c) (rev s))"

subsection \<open>\<^verbatim>\<open>strings.TrimSpace\<close>\<close>

text \<open>White space is what \<^verbatim>\<open>unicode.IsSpace\<close> accepts: tab, line feed, vertical tab,
  form feed, carriage return, space, U+0085, U+00A0, U+1680, U+2000 to U+200A, U+2028,
  U+2029, U+202F, U+205F and U+3000, each in its UTF-8 encoding.  \<open>spaceWidth\<close> is
  the number of bytes of the white-space character a byte sequence starts with, and 0
  when it starts with none.\<close>

fun spaceWidth :: "nat list \<Rightarrow> nat" where
  "spaceWidth [] = 0"
| "spaceWidth (b # bs) =
     (if b \<in> {0x09, 0x0A, 0x0B, 0x0C, 0x0D, 0x20} then 1
      else if b = 0xC2 then
        (case bs of c # _ \<Rightarrow> if c = 0x85 \<or> c = 0xA0 then 2 else 0 | _ \<Rightarrow> 0)
      else if b = 0xE1 then
        (case bs of c # d # _ \<Rightarrow> if c = 0x9A \<and> d = 0x80 then 3 else 0 | _ \<Rightarrow> 0)
      else if b = 0xE2 then
        (case bs of c # d # _ \<Rightarrow>
           if c = 0x80 \<and> (0x80 \<le> d \<and> d \<le> 0x8A \<or> d = 0xA8 \<or> d = 0xA9 \<or> d = 0xAF) then 3
           else if c = 0x81 \<and> d = 0x9F then 3 else 0
         | _ \<Rightarrow> 0)
      else if b = 0xE3 then
        (case bs of c # d # _ \<Rightarrow> if c = 0x80 \<and> d = 0x80 then 3 else 0 | _ \<Rightarrow> 0)
      else 0)"

text \<open>The same from the end: the number of bytes of the white-space character a
  byte sequence ends with, read off the reversed sequence.\<close>

fun spaceWidthRev :: "nat list \<Rightarrow> nat" where
  "spaceWidthRev [] = 0"
| "spaceWidthRev (d # bs) =
     (if d \<in> {0x09, 0x0A, 0x0B, 0x0C, 0x0D, 0x20} then 1
      else case bs of
        [] \<Rightarrow> 0
      | c # bs' \<Rightarrow>
          if c = 0xC2 \<and> (d = 0x85 \<or> d = 0xA0) then 2
          else (case bs' of
            [] \<Rightarrow> 0
          | b # _ \<Rightarrow>
              if b = 0xE1 \<and> c = 0x9A \<and> d = 0x80 then 3
              else if b = 0xE2 \<and> c = 0x80 \<and>
                      (0x80 \<le> d \<and> d \<le> 0x8A \<or> d = 0xA8 \<or> d = 0xA9 \<or> d = 0xAF) then 3
              else if b = 0xE2 \<and> c = 0x81 \<and> d = 0x9F then 3
              else if b = 0xE3 \<and> c = 0x80 \<and> d = 0x80 then 3
              else 0))"

function trimLeftSpace :: "string \<Rightarrow> string" where
  "trimLeftSpace s =
     (let n = spaceWidth (map of_char s) in if n = 0 then s else trimLeftSpace (drop n s))"
  by pat_completeness auto
termination
proof (relation "measure length")
  show "wf (measure length)" by simp
next
  fix s :: string and n :: nat
  assume n: "n = spaceWidth (map of_char s)" and nz: "n \<noteq> 0"
  from n nz have "s \<noteq> []" by (cases s) auto
  with nz show "(drop n s, s) \<in> measure length" by simp
qed

function trimRightSpaceRev :: "string \<Rightarrow> string" where
  "trimRightSpaceRev r =
     (let n = spaceWidthRev (map of_char r) in if n = 0 then r else trimRightSpaceRev (drop n r))"
  by pat_completeness auto
termination
proof (relation "measure length")
  show "wf (measure length)" by simp
next
  fix r :: string and n :: nat
  assume n: "n = spaceWidthRev (map of_char r)" and nz: "n \<noteq> 0"
  from n nz have "r \<noteq> []" by (cases r) auto
  with nz show "(drop n r, r) \<in> measure length" by simp
qed

definition TrimSpace :: "string \<Rightarrow> string" where
  "TrimSpace s = rev (trimRightSpaceRev (rev (trimLeftSpace s)))"

subsection \<open>\<^verbatim>\<open>time.Second * time.Duration(n)\<close>\<close>

text \<open>A \<^verbatim>\<open>time.Duration\<close> is a signed 64-bit count of nanoseconds, and the product
  wraps around as every Go integer product does.\<close>

definition int64 :: "int \<Rightarrow> int" where
  "int64 x = (x + 2 ^ 63) mod 2 ^ 64 - 2 ^ 63"

definition seconds :: "int \<Rightarrow> int" where
  "seconds n = int64 (1000000000 * n)"

section \<open>The processor\<close>

subsection \<open>\<^verbatim>\<open>processOrder\<close>\<close>

definition requestURL :: "Processor \<Rightarrow> Order \<Rightarrow> string" where
  "requestURL p order = trimRightByte (BaseURL p) (CHR ''/'') @ ''/'' @ OrderID order"

function processOrder ::
  "Processor \<Rightarrow> system \<Rightarrow> Order \<Rightarrow> int \<Rightarrow> world \<Rightarrow> error option \<times> world" where
  "processOrder p sys order retryCount w =
     (case client_get sys (requests w) (requestURL p order) of
        GetFailed err \<Rightarrow>
          if retryCount < Retries p then
            processOrder p sys order (retryCount + 1)
              (emit [Log Debug (CurrentRetryCount retryCount (Retries p)),
                     Log Warn (RequestFailed (OrderID order) (retryCount + 1) (Retries p) err),
                     Sleep (seconds (retryCount + 1))]
                 (request (requestURL p order) w))
          else (Some (RequestError err), request (requestURL p order) w)
      | Response status body \<Rightarrow>
          if status < 200 \<or> status \<ge> 300 then
            (Some (Non2XX status), request (requestURL p order) w)
          else
            (case body of
               Inl err \<Rightarrow> (Some (ReadBodyError err), request (requestURL p order) w)
             | Inr b \<Rightarrow>
                 (case fprintf sys (writes w) (b @ [CHR 0x0A]) of
                    WriteFailed n err \<Rightarrow>
                      (Some (WriteOutputError err),
                       append_output (take n (b @ [CHR 0x0A])) (request (requestURL p order) w))
                  | Written \<Rightarrow>
                      (None,
                       emit [Log Info (Processed (OrderID order))]
                         (append_output (b @ [CHR 0x0A]) (request (requestURL p order) w))))))"
  by pat_completeness auto
termination
  by (relation "measure (\<lambda>(p, sys, order, retryCount, w). nat (Retries p - retryCount))") auto

subsection \<open>\<^verbatim>\<open>processRetryQueue\<close>\<close>

text \<open>The inner loop of \<^verbatim>\<open>processRetryQueue\<close> for one order, from a value of
  \<^verbatim>\<open>retryAttempts\<close>; it returns the value of the counter when the loop is left.\<close>

function retryLoop ::
  "Processor \<Rightarrow> system \<Rightarrow> Order \<Rightarrow> int \<Rightarrow> world \<Rightarrow> int \<times> world" where
  "retryLoop p sys order retryAttempts w =
     (if retryAttempts < Retries p then
        (case processOrder p sys order retryAttempts
                (emit [Log Info (RetryAttempt (retryAttempts + 1) (Retries p) (OrderID order))] w) of
           (Some err, w') \<Rightarrow>
             retryLoop p sys order (retryAttempts + 1)
               (emit [Log Warn (RetryFailed (OrderID order) err)] w')
         | (None, w') \<Rightarrow> (retryAttempts, w'))
      else (retryAttempts, w))"
  by pat_completeness auto
termination
  by (relation "measure (\<lambda>(p, sys, order, retryAttempts, w). nat (Retries p - retryAttempts))") auto

text \<open>The body of the outer loop: the inner loop from 0, then the check of the counter.\<close>

definition retryOrder :: "Processor \<Rightarrow> system \<Rightarrow> Order \<Rightarrow> world \<Rightarrow> world" where
  "retryOrder p sys order w =
     (case retryLoop p sys order 0 w of
        (retryAttempts, w') \<Rightarrow>
          if retryAttempts \<ge> Retries p
          then emit [Log Error (ExceededRetries (OrderID order))] w'
          else w')"

fun retryOrders :: "Processor \<Rightarrow> system \<Rightarrow> Order list \<Rightarrow> world \<Rightarrow> world" where
  "retryOrders p sys [] w = w"
| "retryOrders p sys (order # queue) w = retryOrders p sys queue (retryOrder p sys order w)"

definition processRetryQueue :: "Processor \<Rightarrow> system \<Rightarrow> Order list \<Rightarrow> world \<Rightarrow> world" where
  "processRetryQueue p sys queue w =
     (if length queue = 0 then w
      else retryOrders p sys queue (emit [Log Info (ProcessingQueue (length queue))] w))"

subsection \<open>\<^verbatim>\<open>Process\<close>\<close>

text \<open>One turn of the scanning loop: the line, the line number before the turn, the
  retry queue and the world; it returns the queue and the world after the turn.\<close>

definition scanLine ::
  "Processor \<Rightarrow> system \<Rightarrow> string \<Rightarrow> int \<Rightarrow> Order list \<times> world \<Rightarrow> Order list \<times> world" where
  "scanLine p sys line lineNum qw =
     (case qw of (retryQueue, w) \<Rightarrow>
        if TrimSpace line = [] then (retryQueue, w)
        else
          (case unmarshal sys line of
             Inl err \<Rightarrow> (retryQueue, emit [Log Warn (LineNotJSON (lineNum + 1) err)] w)
           | Inr order \<Rightarrow>
               if Order.Symbol order = Processor.Symbol p \<and> Order.Side order = Processor.Side p then
                 (case processOrder p sys order 0 (emit [Log Info (ProcessingOrder order)] w) of
                    (Some err, w') \<Rightarrow>
                      (retryQueue @ [order],
                       emit [Log Warn (AddingToRetryQueue (OrderID order) err)] w')
                  | (None, w') \<Rightarrow> (retryQueue, w'))
               else (retryQueue, w)))"

fun scanLoop ::
  "Processor \<Rightarrow> system \<Rightarrow> string list \<Rightarrow> int \<Rightarrow> Order list \<times> world \<Rightarrow> Order list \<times> world" where
  "scanLoop p sys [] lineNum qw = qw"
| "scanLoop p sys (line # rest) lineNum qw =
     scanLoop p sys rest (lineNum + 1) (scanLine p sys line lineNum qw)"

text \<open>\<^verbatim>\<open>Process\<close>, from the world it is started in.  \<^verbatim>\<open>os.Create\<close> truncates the
  output file.  The two deferred \<^verbatim>\<open>Close\<close> calls have no effect on what is observed
  here and are left out.\<close>

definition Process :: "Processor \<Rightarrow> system \<Rightarrow> world \<Rightarrow> error option \<times> world" where
  "Process p sys w =
     (case open_error sys of
        Some err \<Rightarrow> (Some (OpenInputError err), w)
      | None \<Rightarrow>
          (case create_error sys of
             Some err \<Rightarrow> (Some (CreateOutputError err), w)
           | None \<Rightarrow>
               (case scanLoop p sys (scanned_lines sys) 0 ([], w\<lparr>output_file := []\<rparr>) of
                  (retryQueue, w') \<Rightarrow>
                    (case scanner_err sys of
                       Some err \<Rightarrow> (Some (ReadInputError err), w')
                     | None \<Rightarrow> (None, processRetryQueue p sys retryQueue w')))))"

section \<open>Observations on a trace\<close>

text \<open>The requests of a trace, its sleeps, and its log calls at a level.\<close>

fun gets :: "event list \<Rightarrow> string list" where
  "gets [] = []"
| "gets (Get url # es) = url # gets es"
| "gets (e # es) = gets es"

fun sleeps :: "event list \<Rightarrow> int list" where
  "sleeps [] = []"
| "sleeps (Sleep d # es) = d # sleeps es"
| "sleeps (e # es) = sleeps es"

fun logs :: "level \<Rightarrow> event list \<Rightarrow> message list" where
  "logs l [] = []"
| "logs l (Log l' m # es) = (if l' = l then m # logs l es else logs l es)"
| "logs l (e # es) = logs l es"

text \<open>The requests and sleeps of a trace, in order, without the log calls.\<close>

fun actions :: "event list \<Rightarrow> event list" where
  "actions [] = []"
| "actions (Log l m # es) = actions es"
| "actions (e # es) = e # actions es"

text \<open>The events between a world and a later one.\<close>

definition since :: "world \<Rightarrow> world \<Rightarrow> event list" where
  "since w w' = drop (length (trace w)) (trace w')"

section \<open>The order a line yields\<close>

text \<open>The order that a line hands to \<^verbatim>\<open>processOrder\<close>, if any: the conditions of the
  scanning loop, in its order.\<close>

definition selected :: "Processor \<Rightarrow> system \<Rightarrow> string \<Rightarrow> Order option" where
  "selected p sys line =
     (if TrimSpace line = [] then None
      else case unmarshal sys line of
        Inl err \<Rightarrow> None
      | Inr order \<Rightarrow>
          if Order.Symbol order = Processor.Symbol p \<and> Order.Side order = Processor.Side p
          then Some order else None)"

section \<open>Example inputs\<close>

text \<open>A configuration with a retry budget of 2 and a base URL with two trailing
  slashes, one order the filter lets through, one it does not, and the empty world.\<close>

definition exProcessor :: Processor where
  "exProcessor =
     \<lparr>InputFile = ''transaction-log.txt'', OutputFile = ''output.txt'',
      Symbol = ''TSLA'', Side = ''sell'', Retries = 2, Timeout = 30000000000,
      Insecure = False, BaseURL = ''http://h/api//''\<rparr>"

definition exOrder :: Order where
  "exOrder =
     \<lparr>OrderID = ''1'', Symbol = ''TSLA'', Quantity = 100, Price = 150,
      Side = ''sell'', Timestamp = 0\<rparr>"

definition exOtherOrder :: Order where
  "exOtherOrder =
     \<lparr>OrderID = ''2'', Symbol = ''AAPL'', Quantity = 5, Price = 99,
      Side = ''sell'', Timestamp = 0\<rparr>"

definition world0 :: world where
  "world0 = \<lparr>requests = 0, writes = 0, output_file = [], trace = []\<rparr>"

text \<open>A system whose input has one line, which decodes to \<open>exOrder\<close>, and whose
  server answers every request with status 500; the same with a server that cannot be
  reached; with a server that answers 200 and the body \<open>OK\<close>; and with that server and
  an output file that cannot be written.\<close>

definition sysStatus500 :: system where
  "sysStatus500 =
     \<lparr>open_error = None, create_error = None, scanned_lines = [''{1}''],
      scanner_err = None,
      unmarshal = (\<lambda>l. if l = ''{1}'' then Inr exOrder
                        else if l = ''{2}'' then Inr exOtherOrder else Inl ''invalid character''),
      client_get = (\<lambda>n url. Response 500 (Inr ''busy'')),
      fprintf = (\<lambda>n s. Written)\<rparr>"

definition sysRefused :: system where
  "sysRefused = sysStatus500\<lparr>client_get := (\<lambda>n url. GetFailed ''connection refused'')\<rparr>"

definition sysOK :: system where
  "sysOK = sysStatus500\<lparr>client_get := (\<lambda>n url. Response 200 (Inr ''OK''))\<rparr>"

definition sysDiskFull :: system where
  "sysDiskFull = sysOK\<lparr>fprintf := (\<lambda>n s. WriteFailed 0 ''no space left on device'')\<rparr>"

text \<open>A system whose input has that line and then a line too long for the scanner:
  the files open, no read fails, the scanner yields the first line and stops with
  \<^verbatim>\<open>bufio.ErrTooLong\<close>.  The server answers 200.\<close>

definition sysLongLine :: system where
  "sysLongLine = sysOK\<lparr>scanner_err := Some ErrTooLong\<rparr>"

section \<open>Traces and worlds\<close>

declare processOrder.simps [simp del]
declare retryLoop.simps [simp del]
declare trimLeftSpace.simps [simp del]
declare trimRightSpaceRev.simps [simp del]

lemma gets_append: "gets (xs @ ys) = gets xs @ gets ys"
  by (induction xs rule: gets.induct) simp_all

lemma sleeps_append: "sleeps (xs @ ys) = sleeps xs @ sleeps ys"
  by (induction xs rule: sleeps.induct) simp_all

lemma logs_append: "logs l (xs @ ys) = logs l xs @ logs l ys"
  by (induction xs rule: logs.induct) simp_all

lemma actions_append: "actions (xs @ ys) = actions xs @ actions ys"
  by (induction xs rule: actions.induct) simp_all

lemma gets_actions: "gets (actions es) = gets es"
  by (induction es rule: actions.induct) simp_all

lemma sleeps_actions: "sleeps (actions es) = sleeps es"
  by (induction es rule: actions.induct) simp_all

lemma trace_emit: "trace (emit es w) = trace w @ es"
  by (simp add: emit_def)

lemma trace_request: "trace (request url w) = trace w @ [Get url]"
  by (simp add: request_def)

lemma trace_append_output: "trace (append_output s w) = trace w"
  by (simp add: append_output_def)

lemma requests_emit: "requests (emit es w) = requests w"
  by (simp add: emit_def)

lemma writes_emit: "writes (emit es w) = writes w"
  by (simp add: emit_def)

lemma output_emit: "output_file (emit es w) = output_file w"
  by (simp add: emit_def)

lemma requests_request: "requests (request url w) = Suc (requests w)"
  by (simp add: request_def)

lemma writes_request: "writes (request url w) = writes w"
  by (simp add: request_def)

lemma output_request: "output_file (request url w) = output_file w"
  by (simp add: request_def)

lemma output_append_output: "output_file (append_output s w) = output_file w @ s"
  by (simp add: append_output_def)

lemmas world_simps = trace_emit trace_request trace_append_output requests_emit writes_emit
  output_emit requests_request writes_request output_request output_append_output

section \<open>One delivery\<close>

text \<open>The branches of \<^verbatim>\<open>processOrder\<close>, one equation each.\<close>

lemma processOrder_retry:
  "client_get sys (requests w) (requestURL p order) = GetFailed err \<Longrightarrow> retryCount < Retries p \<Longrightarrow>
   processOrder p sys order retryCount w =
     processOrder p sys order (retryCount + 1)
       (emit [Log Debug (CurrentRetryCount retryCount (Retries p)),
              Log Warn (RequestFailed (OrderID order) (retryCount + 1) (Retries p) err),
              Sleep (seconds (retryCount + 1))]
          (request (requestURL p order) w))"
  by (subst processOrder.simps) simp

lemma processOrder_give_up:
  "client_get sys (requests w) (requestURL p order) = GetFailed err \<Longrightarrow> \<not> retryCount < Retries p \<Longrightarrow>
   processOrder p sys order retryCount w = (Some (RequestError err), request (requestURL p order) w)"
  by (subst processOrder.simps) simp

lemma processOrder_non2xx:
  "client_get sys (requests w) (requestURL p order) = Response status body \<Longrightarrow>
   status < 200 \<or> 300 \<le> status \<Longrightarrow>
   processOrder p sys order retryCount w = (Some (Non2XX status), request (requestURL p order) w)"
  by (subst processOrder.simps) auto

lemma processOrder_read_error:
  "client_get sys (requests w) (requestURL p order) = Response status (Inl err) \<Longrightarrow>
   200 \<le> status \<Longrightarrow> status < 300 \<Longrightarrow>
   processOrder p sys order retryCount w = (Some (ReadBodyError err), request (requestURL p order) w)"
  by (subst processOrder.simps) simp

lemma processOrder_write_error:
  "client_get sys (requests w) (requestURL p order) = Response status (Inr b) \<Longrightarrow>
   200 \<le> status \<Longrightarrow> status < 300 \<Longrightarrow>
   fprintf sys (writes w) (b @ [CHR 0x0A]) = WriteFailed n err \<Longrightarrow>
   processOrder p sys order retryCount w =
     (Some (WriteOutputError err),
      append_output (take n (b @ [CHR 0x0A])) (request (requestURL p order) w))"
  by (subst processOrder.simps) simp

lemma processOrder_written:
  "client_get sys (requests w) (requestURL p order) = Response status (Inr b) \<Longrightarrow>
   200 \<le> status \<Longrightarrow> status < 300 \<Longrightarrow>
   fprintf sys (writes w) (b @ [CHR 0x0A]) = Written \<Longrightarrow>
   processOrder p sys order retryCount w =
     (None, emit [Log Info (Processed (OrderID order))]
              (append_output (b @ [CHR 0x0A]) (request (requestURL p order) w)))"
  by (subst processOrder.simps) simp

lemma processOrder_extends:
  "\<exists>es. trace (snd (processOrder p sys order retryCount w)) = trace w @ Get (requestURL p order) # es"
proof (induction p sys order retryCount w rule: processOrder.induct)
  case (1 p sys order retryCount w)
  show ?case
  proof (cases "client_get sys (requests w) (requestURL p order)")
    case (GetFailed err)
    show ?thesis
    proof (cases "retryCount < Retries p")
      case True
      from "1.IH" [OF GetFailed True] obtain es where
        "trace (snd (processOrder p sys order (retryCount + 1)
           (emit [Log Debug (CurrentRetryCount retryCount (Retries p)),
              Log Warn (RequestFailed (OrderID order) (retryCount + 1) (Retries p) err),
              Sleep (seconds (retryCount + 1))]
          (request (requestURL p order) w)))) =
         trace (emit [Log Debug (CurrentRetryCount retryCount (Retries p)),
              Log Warn (RequestFailed (OrderID order) (retryCount + 1) (Retries p) err),
              Sleep (seconds (retryCount + 1))]
          (request (requestURL p order) w)) @ Get (requestURL p order) # es"
        by blast
      then show ?thesis
        by (simp add: processOrder_retry [OF GetFailed True] world_simps)
    next
      case False
      then show ?thesis
        by (simp add: processOrder_give_up [OF GetFailed False] world_simps)
    qed
  next
    case (Response status body)
    show ?thesis
    proof (cases "status < 200 \<or> 300 \<le> status")
      case True
      then show ?thesis by (simp add: processOrder_non2xx [OF Response True] world_simps)
    next
      case False
      then have ok: "200 \<le> status" "status < 300" by auto
      show ?thesis
      proof (cases body)
        case (Inl err)
        with Response ok show ?thesis by (simp add: processOrder_read_error world_simps)
      next
        case (Inr b)
        with Response ok show ?thesis
          by (cases "fprintf sys (writes w) (b @ [CHR 0x0A])")
             (simp_all add: processOrder_written processOrder_write_error world_simps)
      qed
    qed
  qed
qed


lemma since_via:
  assumes "trace w1 = trace w @ es" "trace w2 = trace w1 @ es'"
  shows "since w w2 = es @ since w1 w2"
  using assms by (simp add: since_def)

lemma since_processOrder:
  assumes "trace w1 = trace w @ es"
  shows "since w (snd (processOrder p sys order k w1)) =
         es @ since w1 (snd (processOrder p sys order k w1))"
proof -
  obtain es' where "trace (snd (processOrder p sys order k w1)) = trace w1 @ es'"
    using processOrder_extends by blast
  with assms show ?thesis by (rule since_via)
qed

lemma since_request: "since w (request url w) = [Get url]"
  by (simp add: since_def request_def)

lemma processOrder_unreachable:
  assumes down: "\<forall>n. \<exists>err. client_get sys n (requestURL p order) = GetFailed err"
  shows "(\<exists>err. fst (processOrder p sys order retryCount w) = Some (RequestError err)) \<and>
         actions (since w (snd (processOrder p sys order retryCount w))) =
           Get (requestURL p order) #
           concat (map (\<lambda>k. [Sleep (seconds k), Get (requestURL p order)]) [retryCount + 1..Retries p])"
  using down
proof (induction p sys order retryCount w rule: processOrder.induct)
  case (1 p sys order retryCount w)
  note down = "1.prems"
  then obtain err where err: "client_get sys (requests w) (requestURL p order) = GetFailed err"
    by blast
  show ?case
  proof (cases "retryCount < Retries p")
    case True
    then have up: "[retryCount + 1..Retries p] = (retryCount + 1) # [retryCount + 1 + 1..Retries p]"
      by (simp add: upto_rec1)
    let ?es = "[Log Debug (CurrentRetryCount retryCount (Retries p)),
                Log Warn (RequestFailed (OrderID order) (retryCount + 1) (Retries p) err),
                Sleep (seconds (retryCount + 1))]"
    let ?w1 = "emit ?es (request (requestURL p order) w)"
    have "trace ?w1 = trace w @ Get (requestURL p order) # ?es"
      by (simp add: world_simps)
    then have "since w (snd (processOrder p sys order (retryCount + 1) ?w1)) =
        (Get (requestURL p order) # ?es) @ since ?w1 (snd (processOrder p sys order (retryCount + 1) ?w1))"
      by (rule since_processOrder)
    with "1.IH" [OF err True down] show ?thesis
      by (simp add: processOrder_retry [OF err True] up)
  next
    case False
    then show ?thesis
      by (simp add: processOrder_give_up [OF err False] since_request)
  qed
qed

lemma seconds_in_range: "0 \<le> k \<Longrightarrow> k \<le> 9223372036 \<Longrightarrow> seconds k = 1000000000 * k"
  by (simp add: seconds_def int64_def)

lemma gets_sleep_get: "gets (concat (map (\<lambda>k. [Sleep (f k), Get u]) ks)) = replicate (length ks) u"
  by (induction ks) simp_all

lemma sleeps_sleep_get: "sleeps (concat (map (\<lambda>k. [Sleep (f k), Get u]) ks)) = map f ks"
  by (induction ks) simp_all

lemma sorted_wrt_upto: "sorted_wrt (<) [i..j]"
proof -
  have "sorted [i..j]" "distinct [i..j]" by simp_all
  then show ?thesis by (simp add: strict_sorted_iff)
qed


lemma processOrder_prefix: "prefix (trace w) (trace (snd (processOrder p sys order k w)))"
  using processOrder_extends [of p sys order k w] by (auto simp: prefix_def)

lemma since_trans:
  "prefix (trace w) (trace w1) \<Longrightarrow> prefix (trace w1) (trace w2) \<Longrightarrow>
   since w w2 = since w w1 @ since w1 w2"
  by (auto simp: prefix_def since_def)

lemma since_self: "since w w = []"
  by (simp add: since_def)

lemma prefix_emit: "prefix (trace w) (trace (emit es w))"
  by (simp add: emit_def)

lemma since_emit: "since w (emit es w) = es"
  by (simp add: since_def emit_def)

lemma since_emit_after: "prefix (trace w) (trace w') \<Longrightarrow> since w (emit es w') = since w w' @ es"
  by (auto simp: prefix_def since_def emit_def)

lemma since_append_output: "since w (append_output s w') = since w w'"
  by (simp add: since_def append_output_def)

text \<open>What every call of \<^verbatim>\<open>processOrder\<close> leaves behind, whatever its outcome.\<close>

lemma processOrder_footprint:
  "logs Info (since w (snd (processOrder p sys order k w))) =
     (if fst (processOrder p sys order k w) = None then [Processed (OrderID order)] else [])
   \<and> logs Error (since w (snd (processOrder p sys order k w))) = []
   \<and> set (gets (since w (snd (processOrder p sys order k w)))) = {requestURL p order}
   \<and> (\<exists>s. output_file (snd (processOrder p sys order k w)) = output_file w @ s)"
proof (induction p sys order k w rule: processOrder.induct)
  case (1 p sys order retryCount w)
  show ?case
  proof (cases "client_get sys (requests w) (requestURL p order)")
    case (GetFailed err)
    show ?thesis
    proof (cases "retryCount < Retries p")
      case True
      let ?es = "[Log Debug (CurrentRetryCount retryCount (Retries p)),
                  Log Warn (RequestFailed (OrderID order) (retryCount + 1) (Retries p) err),
                  Sleep (seconds (retryCount + 1))]"
      let ?w1 = "emit ?es (request (requestURL p order) w)"
      have "trace ?w1 = trace w @ Get (requestURL p order) # ?es"
        by (simp add: world_simps)
      then have "since w (snd (processOrder p sys order (retryCount + 1) ?w1)) =
          (Get (requestURL p order) # ?es) @ since ?w1 (snd (processOrder p sys order (retryCount + 1) ?w1))"
        by (rule since_processOrder)
      with "1.IH" [OF GetFailed True] show ?thesis
        by (simp add: processOrder_retry [OF GetFailed True] gets_append logs_append world_simps)
    next
      case False
      then show ?thesis
        by (simp add: processOrder_give_up [OF GetFailed False] since_request world_simps)
    qed
  next
    case (Response status body)
    show ?thesis
    proof (cases "status < 200 \<or> 300 \<le> status")
      case True
      then show ?thesis
        by (simp add: processOrder_non2xx [OF Response True] since_request world_simps)
    next
      case False
      then have ok: "200 \<le> status" "status < 300" by auto
      show ?thesis
      proof (cases body)
        case (Inl err)
        with Response ok show ?thesis
          by (simp add: processOrder_read_error since_request world_simps)
      next
        case (Inr b)
        show ?thesis
        proof (cases "fprintf sys (writes w) (b @ [CHR 0x0A])")
          case Written
          with Response ok Inr show ?thesis
            by (simp add: processOrder_written since_def world_simps)
        next
          case (WriteFailed n err)
          with Response ok Inr show ?thesis
            by (simp add: processOrder_write_error since_def world_simps)
        qed
      qed
    qed
  qed
qed

section \<open>The retry loop\<close>

lemma retryLoop_done:
  "\<not> i < Retries p \<Longrightarrow> retryLoop p sys order i w = (i, w)"
  by (subst retryLoop.simps) simp

lemma retryLoop_success:
  "i < Retries p \<Longrightarrow>
   processOrder p sys order i (emit [Log Info (RetryAttempt (i + 1) (Retries p) (OrderID order))] w)
     = (None, w') \<Longrightarrow>
   retryLoop p sys order i w = (i, w')"
  by (subst retryLoop.simps) simp

lemma retryLoop_failure:
  "i < Retries p \<Longrightarrow>
   processOrder p sys order i (emit [Log Info (RetryAttempt (i + 1) (Retries p) (OrderID order))] w)
     = (Some err, w') \<Longrightarrow>
   retryLoop p sys order i w =
     retryLoop p sys order (i + 1) (emit [Log Warn (RetryFailed (OrderID order) err)] w')"
  by (subst retryLoop.simps) simp

lemma retryLoop_prefix: "prefix (trace w) (trace (snd (retryLoop p sys order i w)))"
proof (induction p sys order i w rule: retryLoop.induct)
  case (1 p sys order i w)
  show ?case
  proof (cases "i < Retries p")
    case False
    then show ?thesis by (simp add: retryLoop_done)
  next
    case True
    let ?w0 = "emit [Log Info (RetryAttempt (i + 1) (Retries p) (OrderID order))] w"
    obtain r w1 where po: "processOrder p sys order i ?w0 = (r, w1)"
      by (cases "processOrder p sys order i ?w0")
    have w1: "prefix (trace w) (trace w1)"
      using processOrder_prefix [of ?w0 p sys order i] po prefix_emit [of w]
      by (metis prefix_order.trans snd_conv)
    show ?thesis
    proof (cases r)
      case None
      with True po w1 show ?thesis by (simp add: retryLoop_success)
    next
      case (Some err)
      let ?w2 = "emit [Log Warn (RetryFailed (OrderID order) err)] w1"
      have "prefix (trace ?w2) (trace (snd (retryLoop p sys order (i + 1) ?w2)))"
        using "1.IH" [OF True po [symmetric] Some] .
      moreover have "prefix (trace w) (trace ?w2)"
        using w1 prefix_emit [of w1] by (metis prefix_order.trans)
      ultimately have "prefix (trace w) (trace (snd (retryLoop p sys order (i + 1) ?w2)))"
        by (metis prefix_order.trans)
      then show ?thesis
        using True po Some by (simp add: retryLoop_failure)
    qed
  qed
qed

lemma retryLoop_counter:
  "i \<le> fst (retryLoop p sys order i w) \<and> (i \<le> Retries p \<longrightarrow> fst (retryLoop p sys order i w) \<le> Retries p)"
proof (induction p sys order i w rule: retryLoop.induct)
  case (1 p sys order i w)
  show ?case
  proof (cases "i < Retries p")
    case False
    then show ?thesis by (simp add: retryLoop_done)
  next
    case True
    let ?w0 = "emit [Log Info (RetryAttempt (i + 1) (Retries p) (OrderID order))] w"
    obtain r w1 where po: "processOrder p sys order i ?w0 = (r, w1)"
      by (cases "processOrder p sys order i ?w0")
    show ?thesis
    proof (cases r)
      case None
      with True po show ?thesis by (simp add: retryLoop_success)
    next
      case (Some err)
      with "1.IH" [OF True po [symmetric] Some] True po show ?thesis
        by (simp add: retryLoop_failure)
    qed
  qed
qed

text \<open>The events of one turn of the loop that fails, and of one that succeeds.\<close>

lemma since_retry_turn:
  assumes po: "processOrder p sys order i (emit [e] w) = (r, w1)"
    and w2: "prefix (trace (emit [e'] w1)) (trace w2)"
  shows "since w w2 = e # since (emit [e] w) w1 @ e' # since (emit [e'] w1) w2"
proof -
  have a: "prefix (trace (emit [e] w)) (trace w1)"
    using processOrder_prefix [of "emit [e] w" p sys order i] po by simp
  have b: "prefix (trace w) (trace w1)"
    using a prefix_emit [of w "[e]"] by (metis prefix_order.trans)
  have c: "prefix (trace w1) (trace w2)"
    using w2 prefix_emit [of w1 "[e']"] by (metis prefix_order.trans)
  have "since w w2 = since w w1 @ since w1 w2" using b c by (rule since_trans)
  moreover have "since w w1 = since w (emit [e] w) @ since (emit [e] w) w1"
    using prefix_emit a by (rule since_trans)
  moreover have "since w1 w2 = since w1 (emit [e'] w1) @ since (emit [e'] w1) w2"
    using prefix_emit w2 by (rule since_trans)
  ultimately show ?thesis by (simp add: since_emit)
qed

lemma since_success_turn:
  assumes po: "processOrder p sys order i (emit [e] w) = (r, w1)"
  shows "since w w1 = e # since (emit [e] w) w1"
proof -
  have a: "prefix (trace (emit [e] w)) (trace w1)"
    using processOrder_prefix [of "emit [e] w" p sys order i] po by simp
  have "since w w1 = since w (emit [e] w) @ since (emit [e] w) w1"
    using prefix_emit a by (rule since_trans)
  then show ?thesis by (simp add: since_emit)
qed

lemma retryLoop_info_logs:
  "i \<le> Retries p \<Longrightarrow>
   logs Info (since w (snd (retryLoop p sys order i w))) =
     map (\<lambda>j. RetryAttempt j (Retries p) (OrderID order))
       [i + 1..(if fst (retryLoop p sys order i w) < Retries p
                then fst (retryLoop p sys order i w) + 1
                else fst (retryLoop p sys order i w))]
     @ (if fst (retryLoop p sys order i w) < Retries p then [Processed (OrderID order)] else [])"
proof (induction p sys order i w rule: retryLoop.induct)
  case (1 p sys order i w)
  show ?case
  proof (cases "i < Retries p")
    case False
    then show ?thesis by (simp add: retryLoop_done since_self)
  next
    case True
    let ?w0 = "emit [Log Info (RetryAttempt (i + 1) (Retries p) (OrderID order))] w"
    obtain r w1 where po: "processOrder p sys order i ?w0 = (r, w1)"
      by (cases "processOrder p sys order i ?w0")
    have foot: "logs Info (since ?w0 w1) = (if r = None then [Processed (OrderID order)] else [])"
      using processOrder_footprint [of ?w0 p sys order i] po by simp
    show ?thesis
    proof (cases r)
      case None
      with True po foot since_success_turn [OF po] show ?thesis
        by (simp add: retryLoop_success)
    next
      case (Some err)
      let ?w2 = "emit [Log Warn (RetryFailed (OrderID order) err)] w1"
      let ?res = "retryLoop p sys order (i + 1) ?w2"
      have eq: "retryLoop p sys order i w = ?res"
        using True po Some by (simp add: retryLoop_failure)
      have ih: "logs Info (since ?w2 (snd ?res)) =
        map (\<lambda>j. RetryAttempt j (Retries p) (OrderID order))
          [i + 1 + 1..(if fst ?res < Retries p then fst ?res + 1 else fst ?res)]
        @ (if fst ?res < Retries p then [Processed (OrderID order)] else [])"
        using "1.IH" [OF True po [symmetric] Some] True by simp
      have cnt: "i + 1 \<le> fst ?res" using retryLoop_counter [of "i + 1" p sys order ?w2] by simp
      then have up: "[i + 1..(if fst ?res < Retries p then fst ?res + 1 else fst ?res)] =
          (i + 1) # [i + 1 + 1..(if fst ?res < Retries p then fst ?res + 1 else fst ?res)]"
        by (simp add: upto_rec1)
      have "since w (snd ?res) =
          Log Info (RetryAttempt (i + 1) (Retries p) (OrderID order)) # since ?w0 w1 @
          Log Warn (RetryFailed (OrderID order) err) # since ?w2 (snd ?res)"
        using po retryLoop_prefix by (rule since_retry_turn)
      with foot Some ih show ?thesis
        unfolding eq up by (simp add: logs_append)
    qed
  qed
qed


lemma retryLoop_gets:
  "set (gets (since w (snd (retryLoop p sys order i w)))) =
     (if i < Retries p then {requestURL p order} else {})"
proof (induction p sys order i w rule: retryLoop.induct)
  case (1 p sys order i w)
  show ?case
  proof (cases "i < Retries p")
    case False
    then show ?thesis by (simp add: retryLoop_done since_self)
  next
    case True
    let ?w0 = "emit [Log Info (RetryAttempt (i + 1) (Retries p) (OrderID order))] w"
    obtain r w1 where po: "processOrder p sys order i ?w0 = (r, w1)"
      by (cases "processOrder p sys order i ?w0")
    have foot: "set (gets (since ?w0 w1)) = {requestURL p order}"
      using processOrder_footprint [of ?w0 p sys order i] po by simp
    show ?thesis
    proof (cases r)
      case None
      with True po foot since_success_turn [OF po] show ?thesis
        by (simp add: retryLoop_success)
    next
      case (Some err)
      let ?w2 = "emit [Log Warn (RetryFailed (OrderID order) err)] w1"
      let ?res = "retryLoop p sys order (i + 1) ?w2"
      have eq: "retryLoop p sys order i w = ?res"
        using True po Some by (simp add: retryLoop_failure)
      have ih: "set (gets (since ?w2 (snd ?res))) =
          (if i + 1 < Retries p then {requestURL p order} else {})"
        using "1.IH" [OF True po [symmetric] Some] .
      have "since w (snd ?res) =
          Log Info (RetryAttempt (i + 1) (Retries p) (OrderID order)) # since ?w0 w1 @
          Log Warn (RetryFailed (OrderID order) err) # since ?w2 (snd ?res)"
        using po retryLoop_prefix by (rule since_retry_turn)
      with foot ih True show ?thesis
        unfolding eq by (simp add: gets_append)
    qed
  qed
qed

lemma retryLoop_unreachable:
  assumes down: "\<forall>n. \<exists>err. client_get sys n (requestURL p order) = GetFailed err"
  shows "actions (since w (snd (retryLoop p sys order i w))) =
     concat (map (\<lambda>a. Get (requestURL p order) #
                       concat (map (\<lambda>k. [Sleep (seconds k), Get (requestURL p order)]) [a + 1..Retries p]))
               [i..Retries p - 1])
     \<and> fst (retryLoop p sys order i w) = max i (Retries p)"
  using down
proof (induction p sys order i w rule: retryLoop.induct)
  case (1 p sys order i w)
  note down = "1.prems"
  show ?case
  proof (cases "i < Retries p")
    case False
    then show ?thesis by (simp add: retryLoop_done since_self)
  next
    case True
    let ?w0 = "emit [Log Info (RetryAttempt (i + 1) (Retries p) (OrderID order))] w"
    obtain r w1 where po: "processOrder p sys order i ?w0 = (r, w1)"
      by (cases "processOrder p sys order i ?w0")
    from processOrder_unreachable [OF down, of i ?w0] po
    obtain err where r: "r = Some (RequestError err)"
      and acts: "actions (since ?w0 w1) = Get (requestURL p order) #
           concat (map (\<lambda>k. [Sleep (seconds k), Get (requestURL p order)]) [i + 1..Retries p])"
      by auto
    let ?w2 = "emit [Log Warn (RetryFailed (OrderID order) (RequestError err))] w1"
    let ?res = "retryLoop p sys order (i + 1) ?w2"
    have eq: "retryLoop p sys order i w = ?res"
      using True po r by (simp add: retryLoop_failure)
    have ih: "actions (since ?w2 (snd ?res)) =
       concat (map (\<lambda>a. Get (requestURL p order) #
                       concat (map (\<lambda>k. [Sleep (seconds k), Get (requestURL p order)]) [a + 1..Retries p]))
               [i + 1..Retries p - 1])
       \<and> fst ?res = max (i + 1) (Retries p)"
      using "1.IH" [OF True po [symmetric] r down] .
    have up: "[i..Retries p - 1] = i # [i + 1..Retries p - 1]"
      using True by (simp add: upto_rec1)
    have "since w (snd ?res) =
        Log Info (RetryAttempt (i + 1) (Retries p) (OrderID order)) # since ?w0 w1 @
        Log Warn (RetryFailed (OrderID order) (RequestError err)) # since ?w2 (snd ?res)"
      using po retryLoop_prefix by (rule since_retry_turn)
    with acts ih True show ?thesis
      unfolding eq up by (simp add: actions_append)
  qed
qed

subsection \<open>The retry queue\<close>

lemma retryOrder_prefix: "prefix (trace w) (trace (retryOrder p sys order w))"
proof -
  obtain c w' where rl: "retryLoop p sys order 0 w = (c, w')"
    by (cases "retryLoop p sys order 0 w")
  then have "prefix (trace w) (trace w')"
    using retryLoop_prefix [of w p sys order 0] by simp
  then show ?thesis
    using rl prefix_emit [of w'] by (auto simp: retryOrder_def intro: prefix_order.trans)
qed

lemma retryOrder_gets:
  "set (gets (since w (retryOrder p sys order w))) =
     (if 0 < Retries p then {requestURL p order} else {})"
proof -
  obtain c w' where rl: "retryLoop p sys order 0 w = (c, w')"
    by (cases "retryLoop p sys order 0 w")
  then have pre: "prefix (trace w) (trace w')"
    using retryLoop_prefix [of w p sys order 0] by simp
  have "set (gets (since w w')) = (if 0 < Retries p then {requestURL p order} else {})"
    using retryLoop_gets [of w p sys order 0] rl by simp
  then show ?thesis
    using rl pre by (auto simp: retryOrder_def since_emit_after gets_append split: if_splits)
qed

lemma retryOrders_prefix: "prefix (trace w) (trace (retryOrders p sys queue w))"
proof (induction queue arbitrary: w)
  case Nil
  show ?case by simp
next
  case (Cons order queue)
  from retryOrder_prefix Cons.IH show ?case
    by (simp, rule prefix_order.trans)
qed

lemma retryOrders_gets:
  "set (gets (since w (retryOrders p sys queue w))) =
     (if 0 < Retries p then requestURL p ` set queue else {})"
proof (induction queue arbitrary: w)
  case Nil
  show ?case by (simp add: since_self)
next
  case (Cons order queue)
  have "since w (retryOrders p sys queue (retryOrder p sys order w)) =
        since w (retryOrder p sys order w) @
        since (retryOrder p sys order w) (retryOrders p sys queue (retryOrder p sys order w))"
    using retryOrder_prefix retryOrders_prefix by (rule since_trans)
  then show ?case
    using Cons.IH [of "retryOrder p sys order w"] retryOrder_gets [of w p sys order]
    by (simp add: gets_append)
qed

lemma processRetryQueue_prefix: "prefix (trace w) (trace (processRetryQueue p sys queue w))"
  using retryOrders_prefix [of "emit [Log Info (ProcessingQueue (length queue))] w" p sys queue]
    prefix_emit [of w "[Log Info (ProcessingQueue (length queue))]"]
  by (auto simp: processRetryQueue_def intro: prefix_order.trans)

lemma processRetryQueue_gets:
  "set (gets (since w (processRetryQueue p sys queue w))) =
     (if 0 < Retries p then requestURL p ` set queue else {})"
proof (cases "queue = []")
  case True
  then show ?thesis by (simp add: processRetryQueue_def since_self)
next
  case False
  let ?w0 = "emit [Log Info (ProcessingQueue (length queue))] w"
  have "since w (retryOrders p sys queue ?w0) =
        since w ?w0 @ since ?w0 (retryOrders p sys queue ?w0)"
    using prefix_emit retryOrders_prefix by (rule since_trans)
  with False retryOrders_gets [of ?w0 p sys queue] show ?thesis
    by (simp add: processRetryQueue_def since_emit gets_append)
qed

section \<open>The scanning loop\<close>

lemma scanLine_blank:
  "TrimSpace line = [] \<Longrightarrow> scanLine p sys line n qw = qw"
  by (cases qw) (simp add: scanLine_def)

lemma scanLine_malformed:
  "TrimSpace line \<noteq> [] \<Longrightarrow> unmarshal sys line = Inl err \<Longrightarrow>
   scanLine p sys line n (q, w) = (q, emit [Log Warn (LineNotJSON (n + 1) err)] w)"
  by (simp add: scanLine_def)

lemma scanLine_mismatch:
  "TrimSpace line \<noteq> [] \<Longrightarrow> unmarshal sys line = Inr order \<Longrightarrow>
   \<not> (Order.Symbol order = Processor.Symbol p \<and> Order.Side order = Processor.Side p) \<Longrightarrow>
   scanLine p sys line n (q, w) = (q, w)"
  by (auto simp: scanLine_def)

lemma scanLine_delivered:
  "TrimSpace line \<noteq> [] \<Longrightarrow> unmarshal sys line = Inr order \<Longrightarrow>
   Order.Symbol order = Processor.Symbol p \<and> Order.Side order = Processor.Side p \<Longrightarrow>
   processOrder p sys order 0 (emit [Log Info (ProcessingOrder order)] w) = (None, w') \<Longrightarrow>
   scanLine p sys line n (q, w) = (q, w')"
  by (simp add: scanLine_def)

lemma scanLine_queued:
  "TrimSpace line \<noteq> [] \<Longrightarrow> unmarshal sys line = Inr order \<Longrightarrow>
   Order.Symbol order = Processor.Symbol p \<and> Order.Side order = Processor.Side p \<Longrightarrow>
   processOrder p sys order 0 (emit [Log Info (ProcessingOrder order)] w) = (Some err, w') \<Longrightarrow>
   scanLine p sys line n (q, w) =
     (q @ [order], emit [Log Warn (AddingToRetryQueue (OrderID order) err)] w')"
  by (simp add: scanLine_def)

lemma selected_cases:
  obtains (blank) "TrimSpace line = []" "selected p sys line = None"
  | (malformed) err where "TrimSpace line \<noteq> []" "unmarshal sys line = Inl err"
      "selected p sys line = None"
  | (mismatch) order where "TrimSpace line \<noteq> []" "unmarshal sys line = Inr order"
      "\<not> (Order.Symbol order = Processor.Symbol p \<and> Order.Side order = Processor.Side p)"
      "selected p sys line = None"
  | (match) order where "TrimSpace line \<noteq> []" "unmarshal sys line = Inr order"
      "Order.Symbol order = Processor.Symbol p \<and> Order.Side order = Processor.Side p"
      "selected p sys line = Some order"
proof (cases "TrimSpace line = []")
  case True
  then show ?thesis using blank by (simp add: selected_def)
next
  case False
  show ?thesis
  proof (cases "unmarshal sys line")
    case (Inl err)
    with False show ?thesis using malformed by (simp add: selected_def)
  next
    case (Inr order)
    with False show ?thesis using mismatch [of order] match [of order]
      by (cases "Order.Symbol order = Processor.Symbol p \<and> Order.Side order = Processor.Side p")
         (simp_all add: selected_def)
  qed
qed

text \<open>One turn of the scanning loop: the trace grows, the requests are those for the
  order the line yields, and the queue grows by that order at most.\<close>

lemma scanLine_footprint:
  "prefix (trace w) (trace (snd (scanLine p sys line n (q, w))))
   \<and> set (gets (since w (snd (scanLine p sys line n (q, w))))) =
       (case selected p sys line of None \<Rightarrow> {} | Some order \<Rightarrow> {requestURL p order})
   \<and> (fst (scanLine p sys line n (q, w)) = q \<or>
      (\<exists>order. selected p sys line = Some order \<and> fst (scanLine p sys line n (q, w)) = q @ [order]))"
proof (cases rule: selected_cases [of line p sys])
  case blank
  then show ?thesis by (simp add: scanLine_blank since_self)
next
  case (malformed err)
  then show ?thesis by (simp add: scanLine_malformed since_emit prefix_emit)
next
  case (mismatch order)
  then show ?thesis by (simp add: scanLine_mismatch since_self)
next
  case (match order)
  let ?w0 = "emit [Log Info (ProcessingOrder order)] w"
  obtain r w1 where po: "processOrder p sys order 0 ?w0 = (r, w1)"
    by (cases "processOrder p sys order 0 ?w0")
  have pre0: "prefix (trace ?w0) (trace w1)"
    using processOrder_prefix [of ?w0 p sys order 0] po by simp
  then have pre: "prefix (trace w) (trace w1)"
    using prefix_emit [of w] by (metis prefix_order.trans)
  have foot: "set (gets (since ?w0 w1)) = {requestURL p order}"
    using processOrder_footprint [of ?w0 p sys order 0] po by simp
  have since: "since w w1 = Log Info (ProcessingOrder order) # since ?w0 w1"
    using po by (rule since_success_turn)
  show ?thesis
  proof (cases r)
    case None
    with match po have "scanLine p sys line n (q, w) = (q, w1)"
      by (simp add: scanLine_delivered)
    with pre foot since match show ?thesis by simp
  next
    case (Some err)
    with match po have "scanLine p sys line n (q, w) =
        (q @ [order], emit [Log Warn (AddingToRetryQueue (OrderID order) err)] w1)"
      by (simp add: scanLine_queued)
    moreover have "prefix (trace w) (trace (emit [Log Warn (AddingToRetryQueue (OrderID order) err)] w1))"
      using pre prefix_emit [of w1] by (metis prefix_order.trans)
    ultimately show ?thesis
      using pre foot since match by (simp add: since_emit_after gets_append)
  qed
qed

lemma scanLoop_footprint:
  "prefix (trace (snd qw)) (trace (snd (scanLoop p sys lines n qw)))
   \<and> set (gets (since (snd qw) (snd (scanLoop p sys lines n qw)))) =
       requestURL p ` {order. \<exists>line \<in> set lines. selected p sys line = Some order}
   \<and> set (fst (scanLoop p sys lines n qw)) \<subseteq>
       set (fst qw) \<union> {order. \<exists>line \<in> set lines. selected p sys line = Some order}"
proof (induction lines arbitrary: n qw)
  case Nil
  show ?case by (simp add: since_self)
next
  case (Cons line rest)
  obtain q w where qw: "qw = (q, w)" by (cases qw)
  let ?qw1 = "scanLine p sys line n (q, w)"
  let ?res = "scanLoop p sys rest (n + 1) ?qw1"
  note line = scanLine_footprint [of w p sys line n q]
  note rest = Cons.IH [where n = "n + 1" and qw = ?qw1]
  have pre1: "prefix (trace w) (trace (snd ?qw1))" using line by blast
  have pre2: "prefix (trace (snd ?qw1)) (trace (snd ?res))" using rest by blast
  have "since w (snd ?res) = since w (snd ?qw1) @ since (snd ?qw1) (snd ?res)"
    using pre1 pre2 by (rule since_trans)
  then have gets: "set (gets (since w (snd ?res))) =
      requestURL p ` {order. \<exists>l \<in> set (line # rest). selected p sys l = Some order}"
    using line rest by (auto simp: gets_append split: option.splits)
  have "set (fst ?res) \<subseteq> set (fst ?qw1) \<union> {order. \<exists>l \<in> set rest. selected p sys l = Some order}"
    using rest by blast
  moreover have "set (fst ?qw1) \<subseteq> set q \<union> {order. selected p sys line = Some order}"
    using line by auto
  ultimately have queue: "set (fst ?res) \<subseteq>
      set q \<union> {order. \<exists>l \<in> set (line # rest). selected p sys l = Some order}"
    by auto
  from pre1 pre2 have "prefix (trace w) (trace (snd ?res))"
    by (rule prefix_order.trans)
  with gets queue show ?case by (simp add: qw)
qed

lemma since_truncate: "since (w\<lparr>output_file := s\<rparr>) w' = since w w'"
  by (simp add: since_def)

lemma Process_gets:
  assumes "open_error sys = None" "create_error sys = None"
  shows "set (gets (since w (snd (Process p sys w)))) =
     requestURL p ` {order. \<exists>line \<in> set (scanned_lines sys). selected p sys line = Some order}"
proof -
  let ?w0 = "w\<lparr>output_file := []\<rparr>"
  obtain q w1 where sl: "scanLoop p sys (scanned_lines sys) 0 ([], ?w0) = (q, w1)"
    by (cases "scanLoop p sys (scanned_lines sys) 0 ([], ?w0)")
  note first = scanLoop_footprint [of "([], ?w0)" p sys "scanned_lines sys" 0]
  have pre: "prefix (trace ?w0) (trace w1)" using first sl by simp
  have gets1: "set (gets (since w w1)) =
     requestURL p ` {order. \<exists>line \<in> set (scanned_lines sys). selected p sys line = Some order}"
    using first sl by (simp add: since_truncate)
  have queue: "set q \<subseteq> {order. \<exists>line \<in> set (scanned_lines sys). selected p sys line = Some order}"
    using first sl by simp
  show ?thesis
  proof (cases "scanner_err sys")
    case (Some err)
    with assms sl gets1 show ?thesis by (simp add: Process_def)
  next
    case None
    have "since ?w0 (processRetryQueue p sys q w1) =
          since ?w0 w1 @ since w1 (processRetryQueue p sys q w1)"
      using pre processRetryQueue_prefix by (rule since_trans)
    then have "set (gets (since w (processRetryQueue p sys q w1))) =
       set (gets (since w w1)) \<union> (if 0 < Retries p then requestURL p ` set q else {})"
      by (simp add: since_truncate gets_append processRetryQueue_gets)
    with gets1 queue have "set (gets (since w (processRetryQueue p sys q w1))) =
       requestURL p ` {order. \<exists>line \<in> set (scanned_lines sys). selected p sys line = Some order}"
      by auto
    with assms sl None show ?thesis by (simp add: Process_def)
  qed
qed

section \<open>The request URL\<close>

lemma dropWhile_replicate_append:
  "dropWhile (\<lambda>x. x = c) (replicate n c @ xs) = dropWhile (\<lambda>x. x = c) xs"
  by (induction n) simp_all

lemma trimRightByte_replicate: "trimRightByte (b @ replicate n c) c = trimRightByte b c"
  by (simp add: trimRightByte_def dropWhile_replicate_append)

lemma takeWhile_eq_replicate:
  "takeWhile (\<lambda>x. x = c) xs = replicate (length (takeWhile (\<lambda>x. x = c) xs)) c"
  by (induction xs) simp_all

lemma trimRightByte_decompose:
  "s = trimRightByte s c @ replicate (length (takeWhile (\<lambda>x. x = c) (rev s))) c"
proof -
  have "rev s = takeWhile (\<lambda>x. x = c) (rev s) @ dropWhile (\<lambda>x. x = c) (rev s)"
    by simp
  then have "s = rev (dropWhile (\<lambda>x. x = c) (rev s)) @ rev (takeWhile (\<lambda>x. x = c) (rev s))"
    by (metis rev_append rev_rev_ident)
  moreover have "rev (takeWhile (\<lambda>x. x = c) (rev s))
      = replicate (length (takeWhile (\<lambda>x. x = c) (rev s))) c"
    by (metis takeWhile_eq_replicate rev_replicate)
  ultimately show ?thesis by (simp add: trimRightByte_def)
qed

lemma trimRightByte_last:
  "trimRightByte s c = [] \<or> last (trimRightByte s c) \<noteq> c"
proof (cases "dropWhile (\<lambda>x. x = c) (rev s)")
  case Nil
  then show ?thesis by (simp add: trimRightByte_def)
next
  case (Cons x xs)
  then have "x \<noteq> c" using hd_dropWhile [of "\<lambda>x. x = c" "rev s"] by auto
  with Cons show ?thesis by (simp add: trimRightByte_def)
qed

text \<open>
  Claim C9.  The request URL is the base URL without its trailing slashes, a slash,
  and the order's id.  Two base URLs that differ only in the number of trailing slashes
  (\<open>b\<close> followed by \<open>m\<close> slashes, \<open>b\<close> followed by \<open>n\<close> slashes) give the same URL
  for every order; and the part \<open>t\<close> of the base URL that is kept is followed in the
  base URL by slashes only and does not itself end with a slash, so all of them are
  trimmed.
\<close>

theorem requestURL_trims_trailing_slashes:
  "requestURL (p\<lparr>BaseURL := b @ replicate m (CHR ''/'')\<rparr>) order
     = requestURL (p\<lparr>BaseURL := b @ replicate n (CHR ''/'')\<rparr>) order
   \<and> (\<exists>t k. BaseURL p = t @ replicate k (CHR ''/'')
          \<and> (t = [] \<or> last t \<noteq> CHR ''/'')
          \<and> requestURL p order = t @ ''/'' @ OrderID order)"
proof
  show "requestURL (p\<lparr>BaseURL := b @ replicate m (CHR ''/'')\<rparr>) order
     = requestURL (p\<lparr>BaseURL := b @ replicate n (CHR ''/'')\<rparr>) order"
    by (simp add: requestURL_def trimRightByte_replicate)
next
  let ?t = "trimRightByte (BaseURL p) (CHR ''/'')"
  have "BaseURL p = ?t @ replicate (length (takeWhile (\<lambda>x. x = CHR ''/'') (rev (BaseURL p)))) (CHR ''/'')"
    by (rule trimRightByte_decompose)
  moreover have "?t = [] \<or> last ?t \<noteq> CHR ''/''" by (rule trimRightByte_last)
  moreover have "requestURL p order = ?t @ ''/'' @ OrderID order" by (simp add: requestURL_def)
  ultimately show "\<exists>t k. BaseURL p = t @ replicate k (CHR ''/'')
          \<and> (t = [] \<or> last t \<noteq> CHR ''/'')
          \<and> requestURL p order = t @ ''/'' @ OrderID order"
    by blast
qed

theorem requestURL_trims_trailing_slashes_witness:
  "requestURL (exProcessor\<lparr>BaseURL := ''http://h/api'' @ replicate 0 (CHR ''/'')\<rparr>) exOrder
     = requestURL (exProcessor\<lparr>BaseURL := ''http://h/api'' @ replicate 5 (CHR ''/'')\<rparr>) exOrder
   \<and> requestURL exProcessor exOrder = ''http://h/api/1''"
proof -
  have "requestURL exProcessor exOrder = ''http://h/api/1''"
    by (simp add: requestURL_def trimRightByte_def exProcessor_def exOrder_def)
  with requestURL_trims_trailing_slashes
    [where p = exProcessor and b = "''http://h/api''" and m = 0 and n = 5 and order = exOrder]
  show ?thesis by blast
qed

section \<open>The example inputs, evaluated\<close>

lemma exURL: "requestURL exProcessor exOrder = ''http://h/api/1''"
  by (simp add: requestURL_def trimRightByte_def exProcessor_def exOrder_def)

lemma exRetries: "Retries exProcessor = 2"
  by (simp add: exProcessor_def)

lemma upto_1_2: "[1..2] = [1, 2::int]"
  by (simp add: upto_rec1)

section \<open>Outcomes of one delivery\<close>

text \<open>
  Claim C1, as the code has it.  A response whose status is outside 200 to 299 is a
  failure, but it is not retried inline: at every attempt index, \<open>processOrder\<close>
  returns the failure to its caller after that one request, without a sleep, a log
  call or a write.  Only an error of the request itself, below the retry budget, is
  followed by a sleep of \<open>retryCount + 1\<close> seconds and the same call at
  \<open>retryCount + 1\<close>.  (The claim says that both are retried alike; the counterexample
  below shows the difference on an example.)
\<close>

theorem non2xx_returns_without_inline_retry:
  "(client_get sys (requests w) (requestURL p order) = Response status body
      \<and> (status < 200 \<or> 300 \<le> status)
    \<longrightarrow> processOrder p sys order retryCount w =
          (Some (Non2XX status), request (requestURL p order) w)
      \<and> since w (snd (processOrder p sys order retryCount w)) = [Get (requestURL p order)]
      \<and> output_file (snd (processOrder p sys order retryCount w)) = output_file w)
   \<and> (client_get sys (requests w) (requestURL p order) = GetFailed err
      \<and> retryCount < Retries p
    \<longrightarrow> processOrder p sys order retryCount w =
          processOrder p sys order (retryCount + 1)
            (emit [Log Debug (CurrentRetryCount retryCount (Retries p)),
                   Log Warn (RequestFailed (OrderID order) (retryCount + 1) (Retries p) err),
                   Sleep (seconds (retryCount + 1))]
               (request (requestURL p order) w)))"
  by (auto simp: processOrder_non2xx processOrder_retry since_request world_simps)

theorem non2xx_returns_without_inline_retry_witness:
  "processOrder exProcessor sysStatus500 exOrder 0 world0 =
     (Some (Non2XX 500), request ''http://h/api/1'' world0)
   \<and> since world0 (snd (processOrder exProcessor sysStatus500 exOrder 0 world0)) =
       [Get ''http://h/api/1'']
   \<and> processOrder exProcessor sysRefused exOrder 0 world0 =
       processOrder exProcessor sysRefused exOrder 1
         (emit [Log Debug (CurrentRetryCount 0 2),
                Log Warn (RequestFailed ''1'' 1 2 ''connection refused''),
                Sleep 1000000000]
            (request ''http://h/api/1'' world0))"
proof -
  have a: "client_get sysStatus500 (requests world0) (requestURL exProcessor exOrder) =
      Response 500 (Inr ''busy'')"
    by (simp add: sysStatus500_def)
  have b: "client_get sysRefused (requests world0) (requestURL exProcessor exOrder) =
      GetFailed ''connection refused''"
    by (simp add: sysRefused_def)
  have c: "(500::int) < 200 \<or> 300 \<le> (500::int)" "0 < Retries exProcessor"
    by (simp_all add: exRetries)
  have d: "seconds 1 = 1000000000" "OrderID exOrder = ''1''"
    by (simp_all add: seconds_def int64_def exOrder_def)
  from a c non2xx_returns_without_inline_retry
      [where sys = sysStatus500 and w = world0 and p = exProcessor and order = exOrder
         and status = 500 and body = "Inr ''busy''" and retryCount = 0]
  have "processOrder exProcessor sysStatus500 exOrder 0 world0 =
     (Some (Non2XX 500), request ''http://h/api/1'' world0)
   \<and> since world0 (snd (processOrder exProcessor sysStatus500 exOrder 0 world0)) =
       [Get ''http://h/api/1'']"
    by (simp add: exURL since_request)
  moreover from b c non2xx_returns_without_inline_retry
      [where sys = sysRefused and w = world0 and p = exProcessor and order = exOrder
         and err = "''connection refused''" and retryCount = 0]
  have "processOrder exProcessor sysRefused exOrder 0 world0 =
       processOrder exProcessor sysRefused exOrder 1
         (emit [Log Debug (CurrentRetryCount 0 2),
                Log Warn (RequestFailed ''1'' 1 2 ''connection refused''),
                Sleep 1000000000]
            (request ''http://h/api/1'' world0))"
    by (simp add: exURL exRetries d)
  ultimately show ?thesis by blast
qed

text \<open>
  Against claim C1 as stated: with a retry budget of 2 and attempt index 0, a server
  that answers 500 gets one request and no sleep, while a server that cannot be
  reached gets three requests with sleeps of one and two seconds between them.
\<close>

theorem non2xx_differs_from_transport_failure:
  "0 < Retries exProcessor
   \<and> actions (since world0 (snd (processOrder exProcessor sysStatus500 exOrder 0 world0))) =
       [Get ''http://h/api/1'']
   \<and> actions (since world0 (snd (processOrder exProcessor sysRefused exOrder 0 world0))) =
       [Get ''http://h/api/1'', Sleep 1000000000, Get ''http://h/api/1'',
        Sleep 2000000000, Get ''http://h/api/1'']"
proof -
  have "actions (since world0 (snd (processOrder exProcessor sysStatus500 exOrder 0 world0))) =
       [Get ''http://h/api/1'']"
    by (simp add: processOrder.simps exURL sysStatus500_def world0_def since_def request_def)
  moreover have "actions (since world0 (snd (processOrder exProcessor sysRefused exOrder 0 world0))) =
       [Get ''http://h/api/1'', Sleep 1000000000, Get ''http://h/api/1'',
        Sleep 2000000000, Get ''http://h/api/1'']"
    by (simp add: processOrder.simps exURL exRetries sysRefused_def sysStatus500_def world0_def
        since_def request_def emit_def seconds_def int64_def)
  moreover have "0 < Retries exProcessor" by (simp add: exProcessor_def)
  ultimately show ?thesis by simp
qed

text \<open>
  Claim C2, as the code has it.  For an order whose every request fails at the
  transport level, and a retry budget between 0 and 9223372036 (the largest number of
  seconds a \<^verbatim>\<open>time.Duration\<close> holds), the first-pass call \<open>processOrder p sys order 0\<close>
  returns the request's error after exactly \<open>Retries p + 1\<close> requests; the requests and
  sleeps are one request, then for \<open>k\<close> from 1 to the budget a sleep of \<open>k\<close> seconds
  followed by a request; the sleeps increase strictly.
\<close>

theorem unreachable_server_attempts:
  assumes down: "\<forall>n. \<exists>err. client_get sys n (requestURL p order) = GetFailed err"
    and budget: "0 \<le> Retries p" "Retries p \<le> 9223372036"
  shows "(\<exists>err. fst (processOrder p sys order 0 w) = Some (RequestError err))
     \<and> actions (since w (snd (processOrder p sys order 0 w))) =
         Get (requestURL p order) #
         concat (map (\<lambda>k. [Sleep (1000000000 * k), Get (requestURL p order)]) [1..Retries p])
     \<and> int (length (gets (since w (snd (processOrder p sys order 0 w))))) = Retries p + 1
     \<and> sleeps (since w (snd (processOrder p sys order 0 w))) =
         map (\<lambda>k. 1000000000 * k) [1..Retries p]
     \<and> sorted_wrt (<) (sleeps (since w (snd (processOrder p sys order 0 w))))"
proof -
  let ?new = "since w (snd (processOrder p sys order 0 w))"
  let ?u = "requestURL p order"
  have sec: "map (\<lambda>k. [Sleep (seconds k), Get ?u]) [1..Retries p] =
             map (\<lambda>k. [Sleep (1000000000 * k), Get ?u]) [1..Retries p]"
    using budget by (intro map_cong) (auto simp: seconds_in_range)
  from processOrder_unreachable [OF down, of 0 w]
  have res: "\<exists>err. fst (processOrder p sys order 0 w) = Some (RequestError err)"
    and acts: "actions ?new = Get ?u # concat (map (\<lambda>k. [Sleep (1000000000 * k), Get ?u]) [1..Retries p])"
    by (simp_all add: sec)
  have "gets ?new = gets (actions ?new)" by (simp add: gets_actions)
  then have "gets ?new = ?u # replicate (length [1..Retries p]) ?u"
    by (simp add: acts gets_sleep_get)
  then have n: "int (length (gets ?new)) = Retries p + 1"
    using budget by simp
  have "sleeps ?new = sleeps (actions ?new)" by (simp add: sleeps_actions)
  then have sl: "sleeps ?new = map (\<lambda>k. 1000000000 * k) [1..Retries p]"
    by (simp add: acts sleeps_sleep_get)
  have "sorted_wrt (\<lambda>x y. 1000000000 * x < 1000000000 * y) [1..Retries p]"
    using sorted_wrt_upto [of 1 "Retries p"] by (rule sorted_wrt_mono_rel [rotated]) simp
  then have "sorted_wrt (<) (sleeps ?new)"
    by (simp add: sl sorted_wrt_map)
  with res acts n sl show ?thesis by blast
qed

theorem unreachable_server_attempts_witness:
  "(\<exists>err. fst (processOrder exProcessor sysRefused exOrder 0 world0) = Some (RequestError err))
   \<and> actions (since world0 (snd (processOrder exProcessor sysRefused exOrder 0 world0))) =
       [Get ''http://h/api/1'', Sleep 1000000000, Get ''http://h/api/1'',
        Sleep 2000000000, Get ''http://h/api/1'']
   \<and> length (gets (since world0 (snd (processOrder exProcessor sysRefused exOrder 0 world0)))) = 3
   \<and> sleeps (since world0 (snd (processOrder exProcessor sysRefused exOrder 0 world0))) =
       [1000000000, 2000000000]"
proof -
  have "\<forall>n. \<exists>err. client_get sysRefused n (requestURL exProcessor exOrder) = GetFailed err"
    by (simp add: sysRefused_def)
  moreover have "0 \<le> Retries exProcessor" "Retries exProcessor \<le> 9223372036"
    by (simp_all add: exRetries)
  ultimately show ?thesis
    using unreachable_server_attempts
      [where sys = sysRefused and p = exProcessor and order = exOrder and w = world0]
    by (simp add: exURL exRetries upto_1_2)
qed

text \<open>
  Against claim C2 as stated, which counts a status outside 200 to 299 among the
  retryable outcomes: with a retry budget of 2 and a server that always answers 500,
  the first-pass call makes one request, not three, before it returns the failure.
\<close>

theorem non2xx_single_attempt_in_first_pass:
  "fst (processOrder exProcessor sysStatus500 exOrder 0 world0) = Some (Non2XX 500)
   \<and> length (gets (since world0 (snd (processOrder exProcessor sysStatus500 exOrder 0 world0)))) = 1
   \<and> Retries exProcessor + 1 = 3"
  by (simp add: processOrder.simps exURL exRetries sysStatus500_def world0_def since_def request_def)

text \<open>
  Claim C7, as the code has it.  When the response has a status from 200 to 299, its
  body is read and the write to the output file succeeds, \<open>processOrder\<close> returns
  success and the output file is what it was, followed by the body, byte for byte, and
  one line feed.  Every call, whatever its outcome, leaves the earlier contents of the
  output file in place and only appends, so the bodies stand in the file in the order
  in which the deliveries succeeded.
\<close>

theorem success_status_appends_body:
  "(client_get sys (requests w) (requestURL p order) = Response status (Inr body)
      \<and> 200 \<le> status \<and> status \<le> 299
      \<and> fprintf sys (writes w) (body @ [CHR 0x0A]) = Written
    \<longrightarrow> fst (processOrder p sys order retryCount w) = None
      \<and> output_file (snd (processOrder p sys order retryCount w)) =
          output_file w @ body @ [CHR 0x0A])
   \<and> (\<exists>s. output_file (snd (processOrder p sys order retryCount w)) = output_file w @ s)"
proof -
  have "\<exists>s. output_file (snd (processOrder p sys order retryCount w)) = output_file w @ s"
    using processOrder_footprint [of w p sys order retryCount] by blast
  then show ?thesis
    by (auto simp: processOrder_written world_simps)
qed

theorem success_status_appends_body_witness:
  "fst (processOrder exProcessor sysOK exOrder 0 world0) = None
   \<and> output_file (snd (processOrder exProcessor sysOK exOrder 0 world0)) =
       [CHR ''O'', CHR ''K'', CHR 0x0A]"
proof -
  have "client_get sysOK (requests world0) (requestURL exProcessor exOrder) =
      Response 200 (Inr ''OK'')"
    "fprintf sysOK (writes world0) (''OK'' @ [CHR 0x0A]) = Written"
    by (simp_all add: sysOK_def sysStatus500_def)
  moreover have "output_file world0 = []" by (simp add: world0_def)
  ultimately show ?thesis
    using success_status_appends_body
      [where sys = sysOK and p = exProcessor and order = exOrder and w = world0
         and status = 200 and body = "''OK''" and retryCount = 0]
    by simp
qed

text \<open>
  Against claim C7 as stated, which promises success and the written body for every
  response with a status from 200 to 299: the server answers 200 with the body \<open>OK\<close>,
  the write to the output file fails, and \<open>processOrder\<close> returns that failure with
  nothing in the output file.
\<close>

theorem success_status_write_failure:
  "client_get sysDiskFull (requests world0) (requestURL exProcessor exOrder) =
     Response 200 (Inr ''OK'')
   \<and> fst (processOrder exProcessor sysDiskFull exOrder 0 world0) =
       Some (WriteOutputError ''no space left on device'')
   \<and> output_file (snd (processOrder exProcessor sysDiskFull exOrder 0 world0)) = []"
  by (simp add: processOrder.simps exURL sysDiskFull_def sysOK_def sysStatus500_def world0_def
      request_def append_output_def)

section \<open>Lines of the input\<close>

lemma exLine_not_blank: "TrimSpace ''{1}'' \<noteq> []"
  by (simp add: TrimSpace_def trimLeftSpace.simps trimRightSpaceRev.simps)

lemma exLine2_not_blank: "TrimSpace ''{2}'' \<noteq> []"
  by (simp add: TrimSpace_def trimLeftSpace.simps trimRightSpaceRev.simps)

lemma exBad_not_blank: "TrimSpace ''oops'' \<noteq> []"
  by (simp add: TrimSpace_def trimLeftSpace.simps trimRightSpaceRev.simps)

text \<open>A space, a tab and a no-break space (U+00A0, two bytes) make a blank line.\<close>

lemma exBlank: "TrimSpace [CHR 0x20, CHR 0x09, CHR 0xC2, CHR 0xA0] = []"
  by (simp add: TrimSpace_def trimLeftSpace.simps trimRightSpaceRev.simps)



lemma selected_Some:
  "selected p sys line = Some order \<longleftrightarrow>
     TrimSpace line \<noteq> [] \<and> unmarshal sys line = Inr order
     \<and> Order.Symbol order = Processor.Symbol p \<and> Order.Side order = Processor.Side p"
  by (auto simp: selected_def split: sum.splits)

lemma Process_requests_selected:
  "set (gets (since w (snd (Process p sys w)))) \<subseteq>
     requestURL p ` {order. \<exists>line \<in> set (scanned_lines sys). selected p sys line = Some order}"
proof (cases "open_error sys = None \<and> create_error sys = None")
  case True
  then show ?thesis by (simp add: Process_gets)
next
  case False
  then have "snd (Process p sys w) = w"
    by (auto simp: Process_def split: option.splits)
  then show ?thesis by (simp add: since_self)
qed



text \<open>
  Claim C5.  For a line that decodes to an order, the turn of the scanning loop sends a
  request if and only if the order's symbol and side both equal the configured ones;
  when they do not, the turn leaves the retry queue and the world as they were (no
  request, no write, no log call, nothing queued).  And over the whole run, first pass
  and replay, every request is the request of an order that some line decoded to and
  that passes the filter.
\<close>

theorem delivery_iff_filter_matches:
  assumes "TrimSpace line \<noteq> []" "unmarshal sys line = Inr order"
  shows "((gets (since w (snd (scanLine p sys line n (q, w)))) \<noteq> []) =
          (Order.Symbol order = Processor.Symbol p \<and> Order.Side order = Processor.Side p))
     \<and> (\<not> (Order.Symbol order = Processor.Symbol p \<and> Order.Side order = Processor.Side p)
        \<longrightarrow> scanLine p sys line n (q, w) = (q, w))
     \<and> (\<forall>url \<in> set (gets (since w (snd (Process p sys w)))).
          \<exists>l \<in> set (scanned_lines sys). \<exists>order'.
            TrimSpace l \<noteq> [] \<and> unmarshal sys l = Inr order'
            \<and> Order.Symbol order' = Processor.Symbol p \<and> Order.Side order' = Processor.Side p
            \<and> url = requestURL p order')"
proof (intro conjI)
  have sel: "selected p sys line =
      (if Order.Symbol order = Processor.Symbol p \<and> Order.Side order = Processor.Side p
       then Some order else None)"
    using assms by (simp add: selected_def)
  have "set (gets (since w (snd (scanLine p sys line n (q, w))))) =
      (case selected p sys line of None \<Rightarrow> {} | Some order \<Rightarrow> {requestURL p order})"
    using scanLine_footprint [of w p sys line n q] by blast
  then have "set (gets (since w (snd (scanLine p sys line n (q, w))))) =
      (if Order.Symbol order = Processor.Symbol p \<and> Order.Side order = Processor.Side p
       then {requestURL p order} else {})"
    by (simp add: sel)
  then show "(gets (since w (snd (scanLine p sys line n (q, w)))) \<noteq> []) =
          (Order.Symbol order = Processor.Symbol p \<and> Order.Side order = Processor.Side p)"
  proof (cases "Order.Symbol order = Processor.Symbol p \<and> Order.Side order = Processor.Side p")
    case True
    assume "set (gets (since w (snd (scanLine p sys line n (q, w))))) =
      (if Order.Symbol order = Processor.Symbol p \<and> Order.Side order = Processor.Side p
       then {requestURL p order} else {})"
    with True have "set (gets (since w (snd (scanLine p sys line n (q, w))))) = {requestURL p order}"
      by simp
    then have "gets (since w (snd (scanLine p sys line n (q, w)))) \<noteq> []" by force
    with True show ?thesis by simp
  next
    case False
    assume "set (gets (since w (snd (scanLine p sys line n (q, w))))) =
      (if Order.Symbol order = Processor.Symbol p \<and> Order.Side order = Processor.Side p
       then {requestURL p order} else {})"
    with False have "set (gets (since w (snd (scanLine p sys line n (q, w))))) = {}"
      by simp
    then have "gets (since w (snd (scanLine p sys line n (q, w)))) = []"
      by simp
    with False show ?thesis by simp
  qed
next
  show "\<not> (Order.Symbol order = Processor.Symbol p \<and> Order.Side order = Processor.Side p)
        \<longrightarrow> scanLine p sys line n (q, w) = (q, w)"
    using assms by (simp add: scanLine_mismatch)
next
  show "\<forall>url \<in> set (gets (since w (snd (Process p sys w)))).
          \<exists>l \<in> set (scanned_lines sys). \<exists>order'.
            TrimSpace l \<noteq> [] \<and> unmarshal sys l = Inr order'
            \<and> Order.Symbol order' = Processor.Symbol p \<and> Order.Side order' = Processor.Side p
            \<and> url = requestURL p order'"
  proof
    fix url
    assume "url \<in> set (gets (since w (snd (Process p sys w))))"
    with Process_requests_selected [of w p sys]
    obtain order' l where l: "l \<in> set (scanned_lines sys)"
      and sel: "selected p sys l = Some order'" and u: "url = requestURL p order'"
      by blast
    from sel have parts: "TrimSpace l \<noteq> [] \<and> unmarshal sys l = Inr order'
        \<and> Order.Symbol order' = Processor.Symbol p \<and> Order.Side order' = Processor.Side p"
      by (simp add: selected_Some)
    from l parts u show "\<exists>l \<in> set (scanned_lines sys). \<exists>order'.
            TrimSpace l \<noteq> [] \<and> unmarshal sys l = Inr order'
            \<and> Order.Symbol order' = Processor.Symbol p \<and> Order.Side order' = Processor.Side p
            \<and> url = requestURL p order'"
      by blast
  qed
qed

theorem delivery_iff_filter_matches_witness:
  "scanLine exProcessor sysStatus500 ''{2}'' 0 ([], world0) = ([], world0)
   \<and> gets (since world0 (snd (scanLine exProcessor sysStatus500 ''{1}'' 0 ([], world0)))) \<noteq> []"
proof -
  have "unmarshal sysStatus500 ''{2}'' = Inr exOtherOrder"
    by (simp add: sysStatus500_def)
  moreover have "\<not> (Order.Symbol exOtherOrder = Processor.Symbol exProcessor
      \<and> Order.Side exOtherOrder = Processor.Side exProcessor)"
    by (simp add: exOtherOrder_def exProcessor_def)
  ultimately have a: "scanLine exProcessor sysStatus500 ''{2}'' 0 ([], world0) = ([], world0)"
    using exLine2_not_blank delivery_iff_filter_matches
      [where line = "''{2}''" and sys = sysStatus500 and order = exOtherOrder
         and p = exProcessor and n = 0 and q = "[]" and w = world0]
    by blast
  have "unmarshal sysStatus500 ''{1}'' = Inr exOrder"
    by (simp add: sysStatus500_def)
  moreover have "Order.Symbol exOrder = Processor.Symbol exProcessor
      \<and> Order.Side exOrder = Processor.Side exProcessor"
    by (simp add: exOrder_def exProcessor_def)
  ultimately have "gets (since world0 (snd (scanLine exProcessor sysStatus500 ''{1}'' 0 ([], world0)))) \<noteq> []"
    using exLine_not_blank delivery_iff_filter_matches
      [where line = "''{1}''" and sys = sysStatus500 and order = exOrder
         and p = exProcessor and n = 0 and q = "[]" and w = world0]
    by blast
  with a show ?thesis by blast
qed

section \<open>Failures after a success status\<close>

lemma processOrder_io_failure:
  assumes resp: "client_get sys (requests w) (requestURL p order) = Response status body"
    and ok: "200 \<le> status" "status < 300"
    and io: "(\<exists>err. body = Inl err) \<or>
             (\<exists>b n err. body = Inr b \<and> fprintf sys (writes w) (b @ [CHR 0x0A]) = WriteFailed n err)"
  shows "(\<exists>err. fst (processOrder p sys order retryCount w) = Some (ReadBodyError err)
              \<or> fst (processOrder p sys order retryCount w) = Some (WriteOutputError err))
         \<and> since w (snd (processOrder p sys order retryCount w)) = [Get (requestURL p order)]"
  using io
proof
  assume "\<exists>err. body = Inl err"
  then obtain err where "body = Inl err" by blast
  with resp ok show ?thesis
    by (simp add: processOrder_read_error since_request)
next
  assume "\<exists>b n err. body = Inr b \<and> fprintf sys (writes w) (b @ [CHR 0x0A]) = WriteFailed n err"
  then obtain b n err where "body = Inr b" "fprintf sys (writes w) (b @ [CHR 0x0A]) = WriteFailed n err"
    by blast
  with resp ok show ?thesis
    by (simp add: processOrder_write_error since_append_output since_request)
qed

text \<open>
  Claim C10.  When the response has a status from 200 to 299 and then the body cannot
  be read or the write to the output file fails, \<open>processOrder\<close> returns that failure
  at once, at every attempt index: the events of the call are the one request, with no
  sleep and no retry.  In the first pass the order of such a line is appended to the
  retry queue.  And with a retry budget of at least 1, the replay of a queue that holds
  the order sends a request for it again.
\<close>

theorem io_failure_after_success_status:
  assumes resp: "client_get sys (requests w) (requestURL p order) = Response status body"
    and ok: "200 \<le> status" "status < 300"
    and io: "(\<exists>err. body = Inl err) \<or>
             (\<exists>b n err. body = Inr b \<and> fprintf sys (writes w) (b @ [CHR 0x0A]) = WriteFailed n err)"
  shows "(\<exists>err. fst (processOrder p sys order retryCount w) = Some (ReadBodyError err)
              \<or> fst (processOrder p sys order retryCount w) = Some (WriteOutputError err))
     \<and> since w (snd (processOrder p sys order retryCount w)) = [Get (requestURL p order)]
     \<and> (TrimSpace line \<noteq> [] \<and> unmarshal sys line = Inr order
          \<and> Order.Symbol order = Processor.Symbol p \<and> Order.Side order = Processor.Side p
        \<longrightarrow> fst (scanLine p sys line n (q, w)) = q @ [order])
     \<and> (0 < Retries p \<and> order \<in> set queue
        \<longrightarrow> requestURL p order \<in> set (gets (since w' (processRetryQueue p sys queue w'))))"
proof -
  note one = processOrder_io_failure [OF resp ok io]
  have queued: "fst (scanLine p sys line n (q, w)) = q @ [order]"
    if line: "TrimSpace line \<noteq> []" "unmarshal sys line = Inr order"
      "Order.Symbol order = Processor.Symbol p \<and> Order.Side order = Processor.Side p"
  proof -
    let ?w0 = "emit [Log Info (ProcessingOrder order)] w"
    have "client_get sys (requests ?w0) (requestURL p order) = Response status body"
      using resp by (simp add: world_simps)
    moreover have "(\<exists>err. body = Inl err) \<or>
        (\<exists>b n err. body = Inr b \<and> fprintf sys (writes ?w0) (b @ [CHR 0x0A]) = WriteFailed n err)"
      using io by (simp add: world_simps)
    ultimately obtain err w1 where "processOrder p sys order 0 ?w0 = (Some err, w1)"
      using processOrder_io_failure [OF _ ok, of sys ?w0 p order body 0]
      by (cases "processOrder p sys order 0 ?w0") auto
    with line show ?thesis by (simp add: scanLine_queued)
  qed
  have "requestURL p order \<in> set (gets (since w' (processRetryQueue p sys queue w')))"
    if "0 < Retries p" "order \<in> set queue"
    using that by (simp add: processRetryQueue_gets)
  with one queued show ?thesis by blast
qed


theorem io_failure_after_success_status_witness:
  "(\<exists>err. fst (processOrder exProcessor sysDiskFull exOrder 0 world0) = Some (ReadBodyError err)
         \<or> fst (processOrder exProcessor sysDiskFull exOrder 0 world0) = Some (WriteOutputError err))
   \<and> since world0 (snd (processOrder exProcessor sysDiskFull exOrder 0 world0)) =
       [Get ''http://h/api/1'']
   \<and> fst (scanLine exProcessor sysDiskFull ''{1}'' 0 ([], world0)) = [exOrder]
   \<and> ''http://h/api/1'' \<in>
       set (gets (since world0 (processRetryQueue exProcessor sysDiskFull [exOrder] world0)))"
proof -
  have resp: "client_get sysDiskFull (requests world0) (requestURL exProcessor exOrder) =
      Response 200 (Inr ''OK'')"
    by (simp add: sysDiskFull_def sysOK_def sysStatus500_def)
  have ok: "(200::int) \<le> 200" "(200::int) < 300" by simp_all
  have "fprintf sysDiskFull (writes world0) (''OK'' @ [CHR 0x0A]) =
      WriteFailed 0 ''no space left on device''"
    by (simp add: sysDiskFull_def)
  then have io: "(\<exists>err. (Inr ''OK'' :: string + string) = Inl err) \<or>
      (\<exists>b n err. (Inr ''OK'' :: string + string) = Inr b
         \<and> fprintf sysDiskFull (writes world0) (b @ [CHR 0x0A]) = WriteFailed n err)"
    by blast
  have line: "TrimSpace ''{1}'' \<noteq> [] \<and> unmarshal sysDiskFull ''{1}'' = Inr exOrder
      \<and> Order.Symbol exOrder = Processor.Symbol exProcessor
      \<and> Order.Side exOrder = Processor.Side exProcessor"
    using exLine_not_blank
    by (simp add: sysDiskFull_def sysOK_def sysStatus500_def exOrder_def exProcessor_def)
  have replay: "0 < Retries exProcessor \<and> exOrder \<in> set [exOrder]"
    by (simp add: exRetries)
  note t = io_failure_after_success_status
      [OF resp ok io, where retryCount = 0 and line = "''{1}''" and n = 0 and q = "[]"
         and queue = "[exOrder]" and w' = world0]
  from t line replay show ?thesis
    by (simp add: exURL)
qed

section \<open>The replay of the retry queue\<close>

lemma retryLoop_error_logs: "logs Error (since w (snd (retryLoop p sys order i w))) = []"
proof (induction p sys order i w rule: retryLoop.induct)
  case (1 p sys order i w)
  show ?case
  proof (cases "i < Retries p")
    case False
    then show ?thesis by (simp add: retryLoop_done since_self)
  next
    case True
    let ?w0 = "emit [Log Info (RetryAttempt (i + 1) (Retries p) (OrderID order))] w"
    obtain r w1 where po: "processOrder p sys order i ?w0 = (r, w1)"
      by (cases "processOrder p sys order i ?w0")
    have foot: "logs Error (since ?w0 w1) = []"
      using processOrder_footprint [of ?w0 p sys order i] po by simp
    show ?thesis
    proof (cases r)
      case None
      with True po foot since_success_turn [OF po] show ?thesis
        by (simp add: retryLoop_success)
    next
      case (Some err)
      let ?w2 = "emit [Log Warn (RetryFailed (OrderID order) err)] w1"
      let ?res = "retryLoop p sys order (i + 1) ?w2"
      have eq: "retryLoop p sys order i w = ?res"
        using True po Some by (simp add: retryLoop_failure)
      have ih: "logs Error (since ?w2 (snd ?res)) = []"
        using "1.IH" [OF True po [symmetric] Some] .
      have "since w (snd ?res) =
          Log Info (RetryAttempt (i + 1) (Retries p) (OrderID order)) # since ?w0 w1 @
          Log Warn (RetryFailed (OrderID order) err) # since ?w2 (snd ?res)"
        using po retryLoop_prefix by (rule since_retry_turn)
      with foot ih show ?thesis
        unfolding eq by (simp add: logs_append)
    qed
  qed
qed

text \<open>The replay of one order ends in one of two ways: delivered at one of the first
  \<open>Retries p\<close> turns, or given up after exactly \<open>Retries p\<close> turns.\<close>

lemma retryOrder_outcome:
  assumes budget: "0 \<le> Retries p"
  shows "\<exists>m. 0 \<le> m \<and> m \<le> Retries p \<and>
     (1 \<le> m
        \<and> logs Info (since w (retryOrder p sys order w)) =
            map (\<lambda>j. RetryAttempt j (Retries p) (OrderID order)) [1..m] @ [Processed (OrderID order)]
        \<and> logs Error (since w (retryOrder p sys order w)) = []
      \<or> m = Retries p
        \<and> logs Info (since w (retryOrder p sys order w)) =
            map (\<lambda>j. RetryAttempt j (Retries p) (OrderID order)) [1..m]
        \<and> logs Error (since w (retryOrder p sys order w)) = [ExceededRetries (OrderID order)])"
proof -
  obtain c w' where rl: "retryLoop p sys order 0 w = (c, w')"
    by (cases "retryLoop p sys order 0 w")
  have pre: "prefix (trace w) (trace w')"
    using retryLoop_prefix [of w p sys order 0] rl by simp
  have cnt: "0 \<le> c" "c \<le> Retries p"
    using retryLoop_counter [of 0 p sys order w] rl budget by simp_all
  have info: "logs Info (since w w') =
      map (\<lambda>j. RetryAttempt j (Retries p) (OrderID order))
        [1..(if c < Retries p then c + 1 else c)]
      @ (if c < Retries p then [Processed (OrderID order)] else [])"
    using retryLoop_info_logs [OF budget, of w sys order] rl by simp
  have err: "logs Error (since w w') = []"
    using retryLoop_error_logs [of w p sys order 0] rl by simp
  show ?thesis
  proof (cases "c < Retries p")
    case True
    then have "retryOrder p sys order w = w'"
      using rl by (simp add: retryOrder_def)
    with True info err cnt show ?thesis
      by (intro exI [of _ "c + 1"]) simp
  next
    case False
    with cnt have c: "c = Retries p" by simp
    then have "retryOrder p sys order w = emit [Log Error (ExceededRetries (OrderID order))] w'"
      using rl by (simp add: retryOrder_def)
    with c info err pre budget show ?thesis
      by (intro exI [of _ "Retries p"]) (simp add: since_emit_after logs_append)
  qed
qed

lemma retryOrder_unreachable:
  assumes down: "\<forall>n. \<exists>err. client_get sys n (requestURL p order) = GetFailed err"
  shows "actions (since w (retryOrder p sys order w)) =
     concat (map (\<lambda>a. Get (requestURL p order) #
                       concat (map (\<lambda>k. [Sleep (seconds k), Get (requestURL p order)]) [a + 1..Retries p]))
               [0..Retries p - 1])"
proof -
  obtain c w' where rl: "retryLoop p sys order 0 w = (c, w')"
    by (cases "retryLoop p sys order 0 w")
  have pre: "prefix (trace w) (trace w')"
    using retryLoop_prefix [of w p sys order 0] rl by simp
  have "actions (since w w') =
     concat (map (\<lambda>a. Get (requestURL p order) #
                       concat (map (\<lambda>k. [Sleep (seconds k), Get (requestURL p order)]) [a + 1..Retries p]))
               [0..Retries p - 1])"
    using retryLoop_unreachable [OF down, of w 0] rl by simp
  then show ?thesis
    using rl pre by (simp add: retryOrder_def since_emit_after actions_append)
qed


lemma exLine_decodes:
  "unmarshal sysStatus500 ''{1}'' = Inr exOrder" "unmarshal sysRefused ''{1}'' = Inr exOrder"
  "unmarshal sysOK ''{1}'' = Inr exOrder" "unmarshal sysDiskFull ''{1}'' = Inr exOrder"
  by (simp_all add: sysStatus500_def sysRefused_def sysOK_def sysDiskFull_def)

lemma exOrder_matches:
  "Order.Symbol exOrder = Processor.Symbol exProcessor \<and> Order.Side exOrder = Processor.Side exProcessor"
  by (simp add: exOrder_def exProcessor_def)

lemma exRefused: "\<forall>n. \<exists>err. client_get sysRefused n (requestURL exProcessor exOrder) = GetFailed err"
  by (simp add: sysRefused_def)

text \<open>
  Claim C3, as the code has it.  In the first pass the order of a line that passes the
  filter is appended to the retry queue, once, exactly when its call of
  \<open>processOrder\<close> at attempt index 0 fails.  In the replay, with a retry budget of at
  least 0, an order gets \<open>m\<close> calls of \<open>processOrder\<close>, announced as attempts 1 to
  \<open>m\<close>: either \<open>m\<close> is between 1 and the budget and the last call delivers the order,
  or \<open>m\<close> is the budget, every call fails and the order is reported as having exceeded
  its retries.  The loop counter starts at 0, whatever happened in the first pass, and
  it is the attempt index of the call: when every request fails at the transport level,
  the call number \<open>a\<close> (from 0) makes its first request and then sleeps \<open>a + 1\<close>,
  \<open>a + 2\<close>, ... up to the budget in seconds, each sleep followed by a request.
\<close>

theorem retry_queue_replay:
  "(TrimSpace line \<noteq> [] \<and> unmarshal sys line = Inr order
      \<and> Order.Symbol order = Processor.Symbol p \<and> Order.Side order = Processor.Side p
    \<longrightarrow> fst (scanLine p sys line n (q, w)) =
        (if fst (processOrder p sys order 0 (emit [Log Info (ProcessingOrder order)] w)) = None
         then q else q @ [order]))
   \<and> (0 \<le> Retries p \<longrightarrow>
        (\<exists>m. 0 \<le> m \<and> m \<le> Retries p \<and>
           (1 \<le> m
              \<and> logs Info (since w (retryOrder p sys order w)) =
                  map (\<lambda>j. RetryAttempt j (Retries p) (OrderID order)) [1..m]
                  @ [Processed (OrderID order)]
              \<and> logs Error (since w (retryOrder p sys order w)) = []
            \<or> m = Retries p
              \<and> logs Info (since w (retryOrder p sys order w)) =
                  map (\<lambda>j. RetryAttempt j (Retries p) (OrderID order)) [1..m]
              \<and> logs Error (since w (retryOrder p sys order w)) =
                  [ExceededRetries (OrderID order)])))
   \<and> ((\<forall>n. \<exists>err. client_get sys n (requestURL p order) = GetFailed err) \<longrightarrow>
        actions (since w (retryOrder p sys order w)) =
          concat (map (\<lambda>a. Get (requestURL p order) #
                            concat (map (\<lambda>k. [Sleep (seconds k), Get (requestURL p order)])
                                      [a + 1..Retries p]))
                    [0..Retries p - 1]))"
proof (intro conjI impI)
  assume line: "TrimSpace line \<noteq> [] \<and> unmarshal sys line = Inr order
      \<and> Order.Symbol order = Processor.Symbol p \<and> Order.Side order = Processor.Side p"
  let ?w0 = "emit [Log Info (ProcessingOrder order)] w"
  obtain r w1 where po: "processOrder p sys order 0 ?w0 = (r, w1)"
    by (cases "processOrder p sys order 0 ?w0")
  show "fst (scanLine p sys line n (q, w)) =
        (if fst (processOrder p sys order 0 ?w0) = None then q else q @ [order])"
  proof (cases r)
    case None
    with line po show ?thesis by (simp add: scanLine_delivered)
  next
    case (Some err)
    with line po show ?thesis by (simp add: scanLine_queued)
  qed
next
  assume "0 \<le> Retries p"
  then show "\<exists>m. 0 \<le> m \<and> m \<le> Retries p \<and>
           (1 \<le> m
              \<and> logs Info (since w (retryOrder p sys order w)) =
                  map (\<lambda>j. RetryAttempt j (Retries p) (OrderID order)) [1..m]
                  @ [Processed (OrderID order)]
              \<and> logs Error (since w (retryOrder p sys order w)) = []
            \<or> m = Retries p
              \<and> logs Info (since w (retryOrder p sys order w)) =
                  map (\<lambda>j. RetryAttempt j (Retries p) (OrderID order)) [1..m]
              \<and> logs Error (since w (retryOrder p sys order w)) =
                  [ExceededRetries (OrderID order)])"
    by (rule retryOrder_outcome)
next
  assume "\<forall>n. \<exists>err. client_get sys n (requestURL p order) = GetFailed err"
  then show "actions (since w (retryOrder p sys order w)) =
          concat (map (\<lambda>a. Get (requestURL p order) #
                            concat (map (\<lambda>k. [Sleep (seconds k), Get (requestURL p order)])
                                      [a + 1..Retries p]))
                    [0..Retries p - 1])"
    by (rule retryOrder_unreachable)
qed

lemma upto_0_1: "[0..1] = [0, 1::int]" "[2..2] = [2::int]" "[3..2] = ([]::int list)"
  by (simp_all add: upto_rec1)

lemma ex_seconds: "seconds 1 = 1000000000" "seconds 2 = 2000000000"
  by (simp_all add: seconds_def int64_def)

theorem retry_queue_replay_witness:
  "fst (scanLine exProcessor sysRefused ''{1}'' 0 ([], world0)) = [exOrder]
   \<and> actions (since world0 (retryOrder exProcessor sysRefused exOrder world0)) =
       [Get ''http://h/api/1'', Sleep 1000000000, Get ''http://h/api/1'',
        Sleep 2000000000, Get ''http://h/api/1'',
        Get ''http://h/api/1'', Sleep 2000000000, Get ''http://h/api/1'']
   \<and> logs Error (since world0 (retryOrder exProcessor sysRefused exOrder world0)) =
       [ExceededRetries ''1'']"
proof -
  note t = retry_queue_replay
      [where p = exProcessor and sys = sysRefused and order = exOrder and w = world0
         and line = "''{1}''" and n = 0 and q = "[]"]
  have failed: "fst (processOrder exProcessor sysRefused exOrder 0
      (emit [Log Info (ProcessingOrder exOrder)] world0)) \<noteq> None"
    using processOrder_unreachable [OF exRefused] by auto
  from t exLine_not_blank exLine_decodes exOrder_matches failed
  have a: "fst (scanLine exProcessor sysRefused ''{1}'' 0 ([], world0)) = [exOrder]"
    by simp
  from t exRefused
  have b: "actions (since world0 (retryOrder exProcessor sysRefused exOrder world0)) =
       [Get ''http://h/api/1'', Sleep 1000000000, Get ''http://h/api/1'',
        Sleep 2000000000, Get ''http://h/api/1'',
        Get ''http://h/api/1'', Sleep 2000000000, Get ''http://h/api/1'']"
    by (simp add: exURL exRetries upto_0_1 upto_1_2 ex_seconds)
  have info: "logs Info (since world0 (retryOrder exProcessor sysRefused exOrder world0)) =
      [RetryAttempt 1 2 ''1'', RetryAttempt 2 2 ''1'']"
    by (simp add: retryOrder_def retryLoop.simps processOrder.simps
        exURL exRetries sysRefused_def sysStatus500_def world0_def since_def request_def emit_def
        ex_seconds exOrder_def [THEN arg_cong, of OrderID])
  have "0 \<le> Retries exProcessor" by (simp add: exRetries)
  with t obtain m where
    "1 \<le> m
       \<and> logs Info (since world0 (retryOrder exProcessor sysRefused exOrder world0)) =
           map (\<lambda>j. RetryAttempt j (Retries exProcessor) (OrderID exOrder)) [1..m]
           @ [Processed (OrderID exOrder)]
       \<and> logs Error (since world0 (retryOrder exProcessor sysRefused exOrder world0)) = []
     \<or> m = Retries exProcessor
       \<and> logs Info (since world0 (retryOrder exProcessor sysRefused exOrder world0)) =
           map (\<lambda>j. RetryAttempt j (Retries exProcessor) (OrderID exOrder)) [1..m]
       \<and> logs Error (since world0 (retryOrder exProcessor sysRefused exOrder world0)) =
           [ExceededRetries (OrderID exOrder)]"
    by blast
  then have c: "logs Error (since world0 (retryOrder exProcessor sysRefused exOrder world0)) =
       [ExceededRetries ''1'']"
  proof
    assume "1 \<le> m
       \<and> logs Info (since world0 (retryOrder exProcessor sysRefused exOrder world0)) =
           map (\<lambda>j. RetryAttempt j (Retries exProcessor) (OrderID exOrder)) [1..m]
           @ [Processed (OrderID exOrder)]
       \<and> logs Error (since world0 (retryOrder exProcessor sysRefused exOrder world0)) = []"
    then have "last (logs Info (since world0 (retryOrder exProcessor sysRefused exOrder world0))) =
        Processed (OrderID exOrder)"
      by simp
    with info show ?thesis by simp
  next
    assume "m = Retries exProcessor
       \<and> logs Info (since world0 (retryOrder exProcessor sysRefused exOrder world0)) =
           map (\<lambda>j. RetryAttempt j (Retries exProcessor) (OrderID exOrder)) [1..m]
       \<and> logs Error (since world0 (retryOrder exProcessor sysRefused exOrder world0)) =
           [ExceededRetries (OrderID exOrder)]"
    then show ?thesis by (simp add: exOrder_def)
  qed
  from a b c show ?thesis by blast
qed

text \<open>
  Against claim C3 as stated, which has every call of the replay made at one fixed
  attempt index: with a retry budget of 2 and a server that cannot be reached, the first
  call of the replay logs the retry counts 0 and 1 and sleeps one and two seconds, the
  second call logs the retry count 1 and sleeps two seconds only; the replay sends five
  requests, not six.
\<close>

theorem replay_attempt_index_increments:
  "logs Debug (since world0 (processRetryQueue exProcessor sysRefused [exOrder] world0)) =
     [CurrentRetryCount 0 2, CurrentRetryCount 1 2, CurrentRetryCount 1 2]
   \<and> logs Info (since world0 (processRetryQueue exProcessor sysRefused [exOrder] world0)) =
     [ProcessingQueue 1, RetryAttempt 1 2 ''1'', RetryAttempt 2 2 ''1'']
   \<and> actions (since world0 (processRetryQueue exProcessor sysRefused [exOrder] world0)) =
       [Get ''http://h/api/1'', Sleep 1000000000, Get ''http://h/api/1'',
        Sleep 2000000000, Get ''http://h/api/1'',
        Get ''http://h/api/1'', Sleep 2000000000, Get ''http://h/api/1'']"
  by (simp add: processRetryQueue_def retryOrder_def retryLoop.simps processOrder.simps
      exURL exRetries sysRefused_def sysStatus500_def world0_def since_def request_def emit_def
      ex_seconds exOrder_def [THEN arg_cong, of OrderID])

section \<open>A server that always answers with an error status\<close>

text \<open>
  Claim C4, as the code has it.  The input has one line, which decodes to an order
  that passes the filter; the server answers every request with the same status outside
  200 to 299; the retry budget is 2.  Then the run returns no error; its events are the
  eleven below: one request in the first pass, after which the order is put on the
  retry queue, then two more requests in the replay, one per announced attempt, and the
  report that the order exceeded its retries; the output file is empty.
\<close>

theorem always_non2xx_run:
  assumes files: "open_error sys = None" "create_error sys = None" "scanner_err sys = None"
    and input: "scanned_lines sys = [line]" "TrimSpace line \<noteq> []" "unmarshal sys line = Inr order"
      "Order.Symbol order = Processor.Symbol p \<and> Order.Side order = Processor.Side p"
    and server: "\<forall>n url. client_get sys n url = Response status body"
      "status < 200 \<or> 300 \<le> status"
    and budget: "Retries p = 2"
  shows "fst (Process p sys w) = None
     \<and> since w (snd (Process p sys w)) =
         [Log Info (ProcessingOrder order),
          Get (requestURL p order),
          Log Warn (AddingToRetryQueue (OrderID order) (Non2XX status)),
          Log Info (ProcessingQueue 1),
          Log Info (RetryAttempt 1 2 (OrderID order)),
          Get (requestURL p order),
          Log Warn (RetryFailed (OrderID order) (Non2XX status)),
          Log Info (RetryAttempt 2 2 (OrderID order)),
          Get (requestURL p order),
          Log Warn (RetryFailed (OrderID order) (Non2XX status)),
          Log Error (ExceededRetries (OrderID order))]
     \<and> gets (since w (snd (scanLoop p sys (scanned_lines sys) 0 ([], w\<lparr>output_file := []\<rparr>)))) =
         [requestURL p order]
     \<and> fst (scanLoop p sys (scanned_lines sys) 0 ([], w\<lparr>output_file := []\<rparr>)) = [order]
     \<and> output_file (snd (Process p sys w)) = []"
proof -
  let ?u = "requestURL p order"
  let ?w0 = "w\<lparr>output_file := []\<rparr>"
  have po: "processOrder p sys order k v = (Some (Non2XX status), request ?u v)" for k v
    using server by (simp add: processOrder_non2xx)
  have first: "scanLoop p sys (scanned_lines sys) 0 ([], ?w0) =
      ([order],
       emit [Log Warn (AddingToRetryQueue (OrderID order) (Non2XX status))]
         (request ?u (emit [Log Info (ProcessingOrder order)] ?w0)))"
    using input by (simp add: scanLine_queued [OF _ _ _ po])
  have loop: "retryLoop p sys order 0 v =
      (2, emit [Log Warn (RetryFailed (OrderID order) (Non2XX status))]
            (request ?u
              (emit [Log Info (RetryAttempt 2 2 (OrderID order))]
                (emit [Log Warn (RetryFailed (OrderID order) (Non2XX status))]
                  (request ?u
                    (emit [Log Info (RetryAttempt 1 2 (OrderID order))] v))))))" for v
    by (simp add: retryLoop.simps po budget)
  have replay: "processRetryQueue p sys [order] v =
      emit [Log Error (ExceededRetries (OrderID order))]
        (emit [Log Warn (RetryFailed (OrderID order) (Non2XX status))]
            (request ?u
              (emit [Log Info (RetryAttempt 2 2 (OrderID order))]
                (emit [Log Warn (RetryFailed (OrderID order) (Non2XX status))]
                  (request ?u
                    (emit [Log Info (RetryAttempt 1 2 (OrderID order))]
                      (emit [Log Info (ProcessingQueue 1)] v)))))))" for v
    by (simp add: processRetryQueue_def retryOrder_def loop budget)
  have run: "Process p sys w =
      (None, processRetryQueue p sys [order]
         (emit [Log Warn (AddingToRetryQueue (OrderID order) (Non2XX status))]
           (request ?u (emit [Log Info (ProcessingOrder order)] ?w0))))"
    using files by (simp add: Process_def first)
  show ?thesis
    by (simp add: run replay first since_def emit_def request_def)
qed

theorem always_non2xx_run_witness:
  "fst (Process exProcessor sysStatus500 world0) = None
   \<and> gets (since world0 (snd (Process exProcessor sysStatus500 world0))) =
       [''http://h/api/1'', ''http://h/api/1'', ''http://h/api/1'']
   \<and> logs Error (since world0 (snd (Process exProcessor sysStatus500 world0))) =
       [ExceededRetries ''1'']
   \<and> fst (scanLoop exProcessor sysStatus500 [''{1}''] 0 ([], world0\<lparr>output_file := []\<rparr>)) =
       [exOrder]"
proof -
  have files: "open_error sysStatus500 = None" "create_error sysStatus500 = None"
    "scanner_err sysStatus500 = None"
    by (simp_all add: sysStatus500_def)
  have lines: "scanned_lines sysStatus500 = [''{1}'']"
    by (simp add: sysStatus500_def)
  have server: "\<forall>n url. client_get sysStatus500 n url = Response 500 (Inr ''busy'')"
    "(500::int) < 200 \<or> 300 \<le> (500::int)"
    by (simp_all add: sysStatus500_def)
  have id: "OrderID exOrder = ''1''" by (simp add: exOrder_def)
  from always_non2xx_run [OF files lines exLine_not_blank exLine_decodes(1) exOrder_matches
      server exRetries, of world0]
  show ?thesis
    by (simp add: exURL id lines)
qed

text \<open>
  Against claim C4 as stated, which has three delivery attempts in the first pass:
  with the retry budget 2 and a server that always answers 500, the scanning loop sends
  one request; the three requests of the run are that one and the two of the replay.
\<close>

theorem always_500_first_pass_single_attempt:
  "Retries exProcessor = 2
   \<and> gets (since world0
        (snd (scanLoop exProcessor sysStatus500 (scanned_lines sysStatus500) 0 ([], world0)))) =
       [''http://h/api/1'']
   \<and> gets (since world0 (snd (Process exProcessor sysStatus500 world0))) =
       [''http://h/api/1'', ''http://h/api/1'', ''http://h/api/1'']"
proof -
  have lines: "scanned_lines sysStatus500 = [''{1}'']"
    "open_error sysStatus500 = None" "create_error sysStatus500 = None"
    "scanner_err sysStatus500 = None"
    by (simp_all add: sysStatus500_def)
  have po: "processOrder exProcessor sysStatus500 exOrder k v =
      (Some (Non2XX 500), request ''http://h/api/1'' v)" for k v
    using processOrder_non2xx [of sysStatus500 v exProcessor exOrder 500 "Inr ''busy''" k]
    by (simp add: sysStatus500_def exURL)
  have first: "scanLine exProcessor sysStatus500 ''{1}'' 0 ([], v) =
      ([exOrder],
       emit [Log Warn (AddingToRetryQueue (OrderID exOrder) (Non2XX 500))]
         (request ''http://h/api/1'' (emit [Log Info (ProcessingOrder exOrder)] v)))" for v
    using exLine_not_blank exLine_decodes(1) exOrder_matches
    by (simp add: scanLine_queued [OF _ _ _ po])
  have w0: "trace world0 = []" "world0\<lparr>output_file := []\<rparr> = world0"
    by (simp_all add: world0_def)
  have a: "gets (since world0
        (snd (scanLoop exProcessor sysStatus500 (scanned_lines sysStatus500) 0 ([], world0)))) =
       [''http://h/api/1'']"
    by (simp add: lines first since_def emit_def request_def w0)
  have b: "gets (since world0 (snd (Process exProcessor sysStatus500 world0))) =
       [''http://h/api/1'', ''http://h/api/1'', ''http://h/api/1'']"
    by (simp add: Process_def lines first processRetryQueue_def retryOrder_def retryLoop.simps
        po exRetries since_def emit_def request_def w0)
  from a b exRetries show ?thesis by blast
qed

section \<open>The run\<close>

lemma logs_since_mono:
  assumes "prefix (trace w) (trace w1)" "prefix (trace w1) (trace w2)"
  shows "set (logs l (since w w1)) \<subseteq> set (logs l (since w w2))"
    and "set (logs l (since w1 w2)) \<subseteq> set (logs l (since w w2))"
  using since_trans [OF assms] by (simp_all add: logs_append)

text \<open>What one turn of the scanning loop logs about its line.\<close>

lemma scanLine_logged:
  "(TrimSpace line \<noteq> [] \<and> unmarshal sys line = Inl err \<longrightarrow>
      LineNotJSON (n + 1) err \<in> set (logs Warn (since w (snd (scanLine p sys line n (q, w))))))
   \<and> (selected p sys line = Some order \<longrightarrow>
      Processed (OrderID order) \<in> set (logs Info (since w (snd (scanLine p sys line n (q, w)))))
      \<or> order \<in> set (fst (scanLine p sys line n (q, w)))
        \<and> (\<exists>err. AddingToRetryQueue (OrderID order) err \<in>
               set (logs Warn (since w (snd (scanLine p sys line n (q, w)))))))
   \<and> set q \<subseteq> set (fst (scanLine p sys line n (q, w)))"
proof (cases rule: selected_cases [of line p sys])
  case blank
  then show ?thesis by (simp add: scanLine_blank)
next
  case (malformed e)
  then show ?thesis by (simp add: scanLine_malformed since_emit)
next
  case (mismatch o')
  then show ?thesis by (simp add: scanLine_mismatch)
next
  case (match o')
  let ?w0 = "emit [Log Info (ProcessingOrder o')] w"
  obtain r w1 where po: "processOrder p sys o' 0 ?w0 = (r, w1)"
    by (cases "processOrder p sys o' 0 ?w0")
  have pre0: "prefix (trace ?w0) (trace w1)"
    using processOrder_prefix [of ?w0 p sys o' 0] po by simp
  then have pre: "prefix (trace w) (trace w1)"
    using prefix_emit [of w] by (metis prefix_order.trans)
  have foot: "logs Info (since ?w0 w1) = (if r = None then [Processed (OrderID o')] else [])"
    using processOrder_footprint [of ?w0 p sys o' 0] po by simp
  have since: "since w w1 = Log Info (ProcessingOrder o') # since ?w0 w1"
    using po by (rule since_success_turn)
  show ?thesis
  proof (cases r)
    case None
    with match po have "scanLine p sys line n (q, w) = (q, w1)"
      by (simp add: scanLine_delivered)
    with foot since match None show ?thesis by auto
  next
    case (Some e)
    with match po have "scanLine p sys line n (q, w) =
        (q @ [o'], emit [Log Warn (AddingToRetryQueue (OrderID o') e)] w1)"
      by (simp add: scanLine_queued)
    with pre match show ?thesis
      by (auto simp: since_emit_after logs_append)
  qed
qed

lemma scanLoop_logged:
  "(\<forall>line \<in> set lines. \<forall>err. TrimSpace line \<noteq> [] \<and> unmarshal sys line = Inl err \<longrightarrow>
      (\<exists>k. LineNotJSON k err \<in> set (logs Warn (since (snd qw) (snd (scanLoop p sys lines n qw))))))
   \<and> (\<forall>line \<in> set lines. \<forall>order. selected p sys line = Some order \<longrightarrow>
      Processed (OrderID order) \<in> set (logs Info (since (snd qw) (snd (scanLoop p sys lines n qw))))
      \<or> order \<in> set (fst (scanLoop p sys lines n qw))
        \<and> (\<exists>err. AddingToRetryQueue (OrderID order) err \<in>
               set (logs Warn (since (snd qw) (snd (scanLoop p sys lines n qw))))))
   \<and> set (fst qw) \<subseteq> set (fst (scanLoop p sys lines n qw))"
proof (induction lines arbitrary: n qw)
  case Nil
  show ?case by simp
next
  case (Cons line rest)
  obtain q w where qw: "qw = (q, w)" by (cases qw)
  let ?qw1 = "scanLine p sys line n (q, w)"
  let ?res = "scanLoop p sys rest (n + 1) ?qw1"
  note turn = scanLine_logged [of line sys _ n w p q]
  note rest = Cons.IH [where n = "n + 1" and qw = ?qw1]
  have pre1: "prefix (trace w) (trace (snd ?qw1))"
    using scanLine_footprint [of w p sys line n q] by blast
  have pre2: "prefix (trace (snd ?qw1)) (trace (snd ?res))"
    using scanLoop_footprint [of ?qw1 p sys rest "n + 1"] by blast
  note mono = logs_since_mono [OF pre1 pre2]
  have queue1: "set q \<subseteq> set (fst ?qw1)" using turn by blast
  have queue2: "set (fst ?qw1) \<subseteq> set (fst ?res)" using rest by blast
  have bad: "\<exists>k. LineNotJSON k err \<in> set (logs Warn (since w (snd ?res)))"
    if l: "l \<in> set (line # rest)" and e: "TrimSpace l \<noteq> [] \<and> unmarshal sys l = Inl err" for l err
  proof (cases "l \<in> set rest")
    case True
    with rest e obtain k where "LineNotJSON k err \<in> set (logs Warn (since (snd ?qw1) (snd ?res)))"
      by blast
    with mono(2) show ?thesis by blast
  next
    case False
    with l have "l = line" by simp
    with e scanLine_logged [of line sys err n w p q]
    have "LineNotJSON (n + 1) err \<in> set (logs Warn (since w (snd ?qw1)))" by blast
    with mono(1) show ?thesis by blast
  qed
  have good: "Processed (OrderID order) \<in> set (logs Info (since w (snd ?res)))
      \<or> order \<in> set (fst ?res)
        \<and> (\<exists>err. AddingToRetryQueue (OrderID order) err \<in> set (logs Warn (since w (snd ?res))))"
    if l: "l \<in> set (line # rest)" and s: "selected p sys l = Some order" for l order
  proof (cases "l \<in> set rest")
    case True
    with rest s have "Processed (OrderID order) \<in> set (logs Info (since (snd ?qw1) (snd ?res)))
      \<or> order \<in> set (fst ?res)
        \<and> (\<exists>err. AddingToRetryQueue (OrderID order) err \<in>
              set (logs Warn (since (snd ?qw1) (snd ?res))))"
      by blast
    with mono(2) show ?thesis by blast
  next
    case False
    with l have "l = line" by simp
    with s scanLine_logged [of line sys _ n w p q order]
    have "Processed (OrderID order) \<in> set (logs Info (since w (snd ?qw1)))
      \<or> order \<in> set (fst ?qw1)
        \<and> (\<exists>err. AddingToRetryQueue (OrderID order) err \<in> set (logs Warn (since w (snd ?qw1))))"
      by blast
    with mono(1) queue2 show ?thesis by blast
  qed
  from bad good queue1 queue2 show ?case
    by (simp only: qw scanLoop.simps fst_conv snd_conv) blast
qed


lemma retryOrder_logged:
  assumes "0 \<le> Retries p"
  shows "Processed (OrderID order) \<in> set (logs Info (since w (retryOrder p sys order w)))
     \<or> ExceededRetries (OrderID order) \<in> set (logs Error (since w (retryOrder p sys order w)))"
  using retryOrder_outcome [OF assms, of w sys order] by auto

lemma retryOrders_logged:
  assumes "0 \<le> Retries p"
  shows "order \<in> set queue \<Longrightarrow>
     Processed (OrderID order) \<in> set (logs Info (since w (retryOrders p sys queue w)))
     \<or> ExceededRetries (OrderID order) \<in> set (logs Error (since w (retryOrders p sys queue w)))"
proof (induction queue arbitrary: w)
  case Nil
  then show ?case by simp
next
  case (Cons o' queue)
  let ?w1 = "retryOrder p sys o' w"
  let ?w2 = "retryOrders p sys queue ?w1"
  have pre1: "prefix (trace w) (trace ?w1)" by (rule retryOrder_prefix)
  have pre2: "prefix (trace ?w1) (trace ?w2)" by (rule retryOrders_prefix)
  note mono = logs_since_mono [OF pre1 pre2]
  show ?case
  proof (cases "order = o'")
    case True
    with retryOrder_logged [OF assms, of order w sys] mono(1) show ?thesis
      by (simp only: retryOrders.simps) blast
  next
    case False
    with Cons.prems have "order \<in> set queue" by simp
    from Cons.IH [OF this, of ?w1] mono(2) show ?thesis
      by (simp only: retryOrders.simps) blast
  qed
qed

lemma processRetryQueue_logged:
  assumes "0 \<le> Retries p" "order \<in> set queue"
  shows "Processed (OrderID order) \<in> set (logs Info (since w (processRetryQueue p sys queue w)))
     \<or> ExceededRetries (OrderID order) \<in>
         set (logs Error (since w (processRetryQueue p sys queue w)))"
proof -
  let ?w0 = "emit [Log Info (ProcessingQueue (length queue))] w"
  from assms(2) have ne: "length queue \<noteq> 0" by auto
  have "prefix (trace w) (trace ?w0)" by (rule prefix_emit)
  from logs_since_mono(2) [OF this retryOrders_prefix]
    retryOrders_logged [OF assms, of ?w0 sys]
  have "Processed (OrderID order) \<in> set (logs Info (since w (retryOrders p sys queue ?w0)))
     \<or> ExceededRetries (OrderID order) \<in> set (logs Error (since w (retryOrders p sys queue ?w0)))"
    by blast
  with ne show ?thesis by (simp add: processRetryQueue_def)
qed

text \<open>What the run logs about the lines it scanned.\<close>

lemma Process_logged:
  assumes files: "open_error sys = None" "create_error sys = None"
    and line: "line \<in> set (scanned_lines sys)"
  shows "TrimSpace line \<noteq> [] \<and> unmarshal sys line = Inl err \<Longrightarrow>
           \<exists>k. LineNotJSON k err \<in> set (logs Warn (since w (snd (Process p sys w))))"
    and "selected p sys line = Some order \<Longrightarrow> scanner_err sys = None \<Longrightarrow> 0 \<le> Retries p \<Longrightarrow>
           Processed (OrderID order) \<in> set (logs Info (since w (snd (Process p sys w))))
           \<or> (\<exists>e. AddingToRetryQueue (OrderID order) e \<in>
                  set (logs Warn (since w (snd (Process p sys w)))))
             \<and> ExceededRetries (OrderID order) \<in>
                  set (logs Error (since w (snd (Process p sys w))))"
proof -
  let ?w0 = "w\<lparr>output_file := []\<rparr>"
  obtain q w1 where sl: "scanLoop p sys (scanned_lines sys) 0 ([], ?w0) = (q, w1)"
    by (cases "scanLoop p sys (scanned_lines sys) 0 ([], ?w0)")
  note first = scanLoop_logged [of "scanned_lines sys" sys "([], ?w0)" p 0]
  have pre1: "prefix (trace ?w0) (trace w1)"
    using scanLoop_footprint [of "([], ?w0)" p sys "scanned_lines sys" 0] sl by simp
  have pre2: "prefix (trace w1) (trace (processRetryQueue p sys q w1))"
    by (rule processRetryQueue_prefix)
  note mono = logs_since_mono [OF pre1 pre2]
  have final: "snd (Process p sys w) = w1 \<or> snd (Process p sys w) = processRetryQueue p sys q w1"
    using files sl by (simp add: Process_def split: option.splits)
  {
    assume "TrimSpace line \<noteq> [] \<and> unmarshal sys line = Inl err"
    with first line sl obtain k where k: "LineNotJSON k err \<in> set (logs Warn (since ?w0 w1))"
      by fastforce
    with mono(1) have "LineNotJSON k err \<in> set (logs Warn (since ?w0 (processRetryQueue p sys q w1)))"
      by blast
    with k final have "LineNotJSON k err \<in> set (logs Warn (since w (snd (Process p sys w))))"
      by (auto simp: since_truncate)
    then show "\<exists>k. LineNotJSON k err \<in> set (logs Warn (since w (snd (Process p sys w))))" ..
  }
  {
    assume sel: "selected p sys line = Some order" and scan: "scanner_err sys = None"
      and budget: "0 \<le> Retries p"
    have run: "snd (Process p sys w) = processRetryQueue p sys q w1"
      using files scan sl by (simp add: Process_def)
    from first line sel sl
    have "Processed (OrderID order) \<in> set (logs Info (since ?w0 w1))
      \<or> order \<in> set q
        \<and> (\<exists>e. AddingToRetryQueue (OrderID order) e \<in> set (logs Warn (since ?w0 w1)))"
      by fastforce
    then have "Processed (OrderID order) \<in>
          set (logs Info (since ?w0 (processRetryQueue p sys q w1)))
        \<or> (\<exists>e. AddingToRetryQueue (OrderID order) e \<in>
               set (logs Warn (since ?w0 (processRetryQueue p sys q w1))))
          \<and> ExceededRetries (OrderID order) \<in>
               set (logs Error (since ?w0 (processRetryQueue p sys q w1)))"
    proof
      assume "Processed (OrderID order) \<in> set (logs Info (since ?w0 w1))"
      with mono(1) show ?thesis by blast
    next
      assume queued: "order \<in> set q
        \<and> (\<exists>e. AddingToRetryQueue (OrderID order) e \<in> set (logs Warn (since ?w0 w1)))"
      then have "order \<in> set q" by blast
      from processRetryQueue_logged [OF budget this, of w1 sys] queued mono
      show ?thesis by blast
    qed
    then show "Processed (OrderID order) \<in> set (logs Info (since w (snd (Process p sys w))))
           \<or> (\<exists>e. AddingToRetryQueue (OrderID order) e \<in>
                  set (logs Warn (since w (snd (Process p sys w)))))
             \<and> ExceededRetries (OrderID order) \<in>
                  set (logs Error (since w (snd (Process p sys w))))"
      by (simp add: run since_truncate)
  }
qed

text \<open>
  Claim C8, as the code has it.  \<open>Process\<close> returns an error exactly when
  \<^verbatim>\<open>os.Open\<close> fails, \<^verbatim>\<open>os.Create\<close> fails or \<^verbatim>\<open>scanner.Err()\<close> is not nil after
  the scanning loop, whatever the lines, the server and the writes do; and
  \<^verbatim>\<open>scanner.Err()\<close> is not nil after a failed read and also after a line too long
  for the scanner, which is a condition of the content.  A failed open or create returns
  at once, with the world untouched; a scanner error returns after the scanning loop,
  before the retry queue is replayed.  When the files open, every scanned line that
  decodes to an order passing the filter gets a request, and every scanned line that
  does not decode is logged as a warning.  When moreover the scan ends without an error
  and the retry budget is at least 0, every such order is logged as processed, or as put
  on the retry queue and then as having exceeded its retries.
\<close>

theorem fatal_failures_of_the_run:
  "((fst (Process p sys w) = None) =
      (open_error sys = None \<and> create_error sys = None \<and> scanner_err sys = None))
   \<and> (\<forall>err. open_error sys = Some err \<longrightarrow>
        Process p sys w = (Some (OpenInputError err), w))
   \<and> (\<forall>err. open_error sys = None \<and> create_error sys = Some err \<longrightarrow>
        Process p sys w = (Some (CreateOutputError err), w))
   \<and> (\<forall>err. open_error sys = None \<and> create_error sys = None \<and> scanner_err sys = Some err \<longrightarrow>
        Process p sys w =
          (Some (ReadInputError err),
           snd (scanLoop p sys (scanned_lines sys) 0 ([], w\<lparr>output_file := []\<rparr>))))
   \<and> (open_error sys = None \<and> create_error sys = None \<longrightarrow>
        (\<forall>line \<in> set (scanned_lines sys). \<forall>order.
           TrimSpace line \<noteq> [] \<and> unmarshal sys line = Inr order
           \<and> Order.Symbol order = Processor.Symbol p \<and> Order.Side order = Processor.Side p
           \<longrightarrow> requestURL p order \<in> set (gets (since w (snd (Process p sys w))))))
   \<and> (open_error sys = None \<and> create_error sys = None \<longrightarrow>
        (\<forall>line \<in> set (scanned_lines sys). \<forall>err.
           TrimSpace line \<noteq> [] \<and> unmarshal sys line = Inl err
           \<longrightarrow> (\<exists>k. LineNotJSON k err \<in> set (logs Warn (since w (snd (Process p sys w)))))))
   \<and> (open_error sys = None \<and> create_error sys = None \<and> scanner_err sys = None
        \<and> 0 \<le> Retries p \<longrightarrow>
        (\<forall>line \<in> set (scanned_lines sys). \<forall>order.
           TrimSpace line \<noteq> [] \<and> unmarshal sys line = Inr order
           \<and> Order.Symbol order = Processor.Symbol p \<and> Order.Side order = Processor.Side p
           \<longrightarrow> Processed (OrderID order) \<in> set (logs Info (since w (snd (Process p sys w))))
               \<or> (\<exists>err. AddingToRetryQueue (OrderID order) err \<in>
                      set (logs Warn (since w (snd (Process p sys w)))))
                 \<and> ExceededRetries (OrderID order) \<in>
                      set (logs Error (since w (snd (Process p sys w))))))"
proof (intro conjI)
  show "(fst (Process p sys w) = None) =
      (open_error sys = None \<and> create_error sys = None \<and> scanner_err sys = None)"
    by (auto simp: Process_def split: option.splits prod.splits)
next
  show "\<forall>err. open_error sys = Some err \<longrightarrow> Process p sys w = (Some (OpenInputError err), w)"
    by (simp add: Process_def)
next
  show "\<forall>err. open_error sys = None \<and> create_error sys = Some err \<longrightarrow>
        Process p sys w = (Some (CreateOutputError err), w)"
    by (simp add: Process_def)
next
  show "\<forall>err. open_error sys = None \<and> create_error sys = None \<and> scanner_err sys = Some err \<longrightarrow>
        Process p sys w =
          (Some (ReadInputError err),
           snd (scanLoop p sys (scanned_lines sys) 0 ([], w\<lparr>output_file := []\<rparr>)))"
    by (auto simp: Process_def split: prod.splits)
next
  show "open_error sys = None \<and> create_error sys = None \<longrightarrow>
        (\<forall>line \<in> set (scanned_lines sys). \<forall>order.
           TrimSpace line \<noteq> [] \<and> unmarshal sys line = Inr order
           \<and> Order.Symbol order = Processor.Symbol p \<and> Order.Side order = Processor.Side p
           \<longrightarrow> requestURL p order \<in> set (gets (since w (snd (Process p sys w)))))"
  proof (intro impI ballI allI)
    fix line order
    assume ok: "open_error sys = None \<and> create_error sys = None"
      and line: "line \<in> set (scanned_lines sys)"
      and sel: "TrimSpace line \<noteq> [] \<and> unmarshal sys line = Inr order
           \<and> Order.Symbol order = Processor.Symbol p \<and> Order.Side order = Processor.Side p"
    from sel have "selected p sys line = Some order" by (simp add: selected_Some)
    with line have "order \<in> {order. \<exists>line \<in> set (scanned_lines sys). selected p sys line = Some order}"
      by blast
    then show "requestURL p order \<in> set (gets (since w (snd (Process p sys w))))"
      using ok by (simp add: Process_gets)
  qed
next
  show "open_error sys = None \<and> create_error sys = None \<longrightarrow>
        (\<forall>line \<in> set (scanned_lines sys). \<forall>err.
           TrimSpace line \<noteq> [] \<and> unmarshal sys line = Inl err
           \<longrightarrow> (\<exists>k. LineNotJSON k err \<in> set (logs Warn (since w (snd (Process p sys w))))))"
  proof (intro impI ballI allI)
    fix line err
    assume ok: "open_error sys = None \<and> create_error sys = None"
      and line: "line \<in> set (scanned_lines sys)"
      and bad: "TrimSpace line \<noteq> [] \<and> unmarshal sys line = Inl err"
    from ok have files: "open_error sys = None" "create_error sys = None" by simp_all
    from Process_logged(1) [OF files line bad]
    show "\<exists>k. LineNotJSON k err \<in> set (logs Warn (since w (snd (Process p sys w))))" .
  qed
next
  show "open_error sys = None \<and> create_error sys = None \<and> scanner_err sys = None
        \<and> 0 \<le> Retries p \<longrightarrow>
        (\<forall>line \<in> set (scanned_lines sys). \<forall>order.
           TrimSpace line \<noteq> [] \<and> unmarshal sys line = Inr order
           \<and> Order.Symbol order = Processor.Symbol p \<and> Order.Side order = Processor.Side p
           \<longrightarrow> Processed (OrderID order) \<in> set (logs Info (since w (snd (Process p sys w))))
               \<or> (\<exists>err. AddingToRetryQueue (OrderID order) err \<in>
                      set (logs Warn (since w (snd (Process p sys w)))))
                 \<and> ExceededRetries (OrderID order) \<in>
                      set (logs Error (since w (snd (Process p sys w)))))"
  proof (intro impI ballI allI)
    fix line order
    assume ok: "open_error sys = None \<and> create_error sys = None \<and> scanner_err sys = None
        \<and> 0 \<le> Retries p"
      and line: "line \<in> set (scanned_lines sys)"
      and sel: "TrimSpace line \<noteq> [] \<and> unmarshal sys line = Inr order
           \<and> Order.Symbol order = Processor.Symbol p \<and> Order.Side order = Processor.Side p"
    from ok have files: "open_error sys = None" "create_error sys = None"
      and scan: "scanner_err sys = None" and budget: "0 \<le> Retries p"
      by simp_all
    from sel have "selected p sys line = Some order" by (simp add: selected_Some)
    from Process_logged(2) [OF files line this scan budget]
    show "Processed (OrderID order) \<in> set (logs Info (since w (snd (Process p sys w))))
               \<or> (\<exists>err. AddingToRetryQueue (OrderID order) err \<in>
                      set (logs Warn (since w (snd (Process p sys w)))))
                 \<and> ExceededRetries (OrderID order) \<in>
                      set (logs Error (since w (snd (Process p sys w))))" .
  qed
qed

theorem fatal_failures_of_the_run_witness:
  "fst (Process exProcessor sysStatus500 world0) = None
   \<and> requestURL exProcessor exOrder \<in>
       set (gets (since world0 (snd (Process exProcessor sysStatus500 world0))))
   \<and> (Processed (OrderID exOrder) \<in>
         set (logs Info (since world0 (snd (Process exProcessor sysStatus500 world0))))
       \<or> (\<exists>err. AddingToRetryQueue (OrderID exOrder) err \<in>
              set (logs Warn (since world0 (snd (Process exProcessor sysStatus500 world0)))))
         \<and> ExceededRetries (OrderID exOrder) \<in>
              set (logs Error (since world0 (snd (Process exProcessor sysStatus500 world0)))))
   \<and> (\<exists>k. LineNotJSON k ''invalid character'' \<in>
         set (logs Warn (since world0
           (snd (Process exProcessor (sysStatus500\<lparr>scanned_lines := [''oops'', ''{1}'']\<rparr>) world0)))))
   \<and> Process exProcessor (sysStatus500\<lparr>open_error := Some ''no such file''\<rparr>) world0 =
       (Some (OpenInputError ''no such file''), world0)
   \<and> Process exProcessor (sysStatus500\<lparr>create_error := Some ''permission denied''\<rparr>) world0 =
       (Some (CreateOutputError ''permission denied''), world0)
   \<and> fst (Process exProcessor
            (sysStatus500\<lparr>scanner_err := Some (ReadFailure ''input/output error'')\<rparr>) world0) =
       Some (ReadInputError (ReadFailure ''input/output error''))"
proof -
  note t = fatal_failures_of_the_run [where p = exProcessor and w = world0]
  have ok: "open_error sysStatus500 = None" "create_error sysStatus500 = None"
    "scanner_err sysStatus500 = None" "0 \<le> Retries exProcessor"
    by (simp_all add: sysStatus500_def exRetries)
  have line: "''{1}'' \<in> set (scanned_lines sysStatus500)"
    "unmarshal sysStatus500 ''{1}'' = Inr exOrder"
    "Order.Symbol exOrder = Processor.Symbol exProcessor \<and> Order.Side exOrder = Processor.Side exProcessor"
    by (simp_all add: sysStatus500_def exOrder_def exProcessor_def)
  from ok t [where sys = sysStatus500, THEN conjunct1]
  have a: "fst (Process exProcessor sysStatus500 world0) = None" by simp
  from ok line exLine_not_blank t [where sys = sysStatus500, THEN conjunct2, THEN conjunct2, THEN conjunct2, THEN conjunct2, THEN conjunct1]
  have b: "requestURL exProcessor exOrder \<in>
       set (gets (since world0 (snd (Process exProcessor sysStatus500 world0))))"
    by blast
  from ok line exLine_not_blank t [where sys = sysStatus500, THEN conjunct2, THEN conjunct2, THEN conjunct2, THEN conjunct2, THEN conjunct2, THEN conjunct2]
  have c: "Processed (OrderID exOrder) \<in>
         set (logs Info (since world0 (snd (Process exProcessor sysStatus500 world0))))
       \<or> (\<exists>err. AddingToRetryQueue (OrderID exOrder) err \<in>
              set (logs Warn (since world0 (snd (Process exProcessor sysStatus500 world0)))))
         \<and> ExceededRetries (OrderID exOrder) \<in>
              set (logs Error (since world0 (snd (Process exProcessor sysStatus500 world0))))"
    by blast
  let ?bad = "sysStatus500\<lparr>scanned_lines := [''oops'', ''{1}'']\<rparr>"
  have bad: "open_error ?bad = None \<and> create_error ?bad = None"
    "''oops'' \<in> set (scanned_lines ?bad)"
    "unmarshal ?bad ''oops'' = Inl ''invalid character''"
    by (simp_all add: sysStatus500_def)
  from bad exBad_not_blank t [where sys = ?bad, THEN conjunct2, THEN conjunct2, THEN conjunct2, THEN conjunct2, THEN conjunct2, THEN conjunct1]
  have d: "\<exists>k. LineNotJSON k ''invalid character'' \<in>
         set (logs Warn (since world0 (snd (Process exProcessor ?bad world0))))"
    by blast
  have "open_error (sysStatus500\<lparr>open_error := Some ''no such file''\<rparr>) = Some ''no such file''"
    by simp
  with t [where sys = "sysStatus500\<lparr>open_error := Some ''no such file''\<rparr>", THEN conjunct2, THEN conjunct1]
  have e: "Process exProcessor (sysStatus500\<lparr>open_error := Some ''no such file''\<rparr>) world0 =
       (Some (OpenInputError ''no such file''), world0)"
    by blast
  have "open_error (sysStatus500\<lparr>create_error := Some ''permission denied''\<rparr>) = None
      \<and> create_error (sysStatus500\<lparr>create_error := Some ''permission denied''\<rparr>) =
          Some ''permission denied''"
    by (simp add: sysStatus500_def)
  with t [where sys = "sysStatus500\<lparr>create_error := Some ''permission denied''\<rparr>",
      THEN conjunct2, THEN conjunct2, THEN conjunct1]
  have f: "Process exProcessor (sysStatus500\<lparr>create_error := Some ''permission denied''\<rparr>) world0 =
       (Some (CreateOutputError ''permission denied''), world0)"
    by blast
  let ?io = "sysStatus500\<lparr>scanner_err := Some (ReadFailure ''input/output error'')\<rparr>"
  have io: "open_error ?io = None \<and> create_error ?io = None
     \<and> scanner_err ?io = Some (ReadFailure ''input/output error'')"
    by (simp add: sysStatus500_def)
  from t [where sys = ?io, THEN conjunct2, THEN conjunct2, THEN conjunct2, THEN conjunct1] io
  have "Process exProcessor ?io world0 =
      (Some (ReadInputError (ReadFailure ''input/output error'')),
       snd (scanLoop exProcessor ?io (scanned_lines ?io) 0 ([], world0\<lparr>output_file := []\<rparr>)))"
    by blast
  then have g: "fst (Process exProcessor ?io world0) =
       Some (ReadInputError (ReadFailure ''input/output error''))"
    by (simp only: fst_conv)
  from a b c d e f g show ?thesis by (intro conjI)
qed

text \<open>
  Against claim C8 as stated, which has only failures of the input and output
  resources abort the run: the files open, no read and no write fails, the first line is
  delivered and its answer written, the next line is too long for the scanner, and
  \<open>Process\<close> returns the scanner's error.
\<close>

theorem too_long_line_is_fatal:
  "open_error sysLongLine = None
   \<and> create_error sysLongLine = None
   \<and> scanner_err sysLongLine = Some ErrTooLong
   \<and> fst (Process exProcessor sysLongLine world0) = Some (ReadInputError ErrTooLong)
   \<and> output_file (snd (Process exProcessor sysLongLine world0)) = [CHR ''O'', CHR ''K'', CHR 0x0A]"
proof -
  have files: "open_error sysLongLine = None" "create_error sysLongLine = None"
    "scanner_err sysLongLine = Some ErrTooLong" "scanned_lines sysLongLine = [''{1}'']"
    "unmarshal sysLongLine ''{1}'' = Inr exOrder"
    by (simp_all add: sysLongLine_def sysOK_def sysStatus500_def)
  have po: "processOrder exProcessor sysLongLine exOrder 0 v =
      (None, emit [Log Info (Processed (OrderID exOrder))]
               (append_output (''OK'' @ [CHR 0x0A]) (request (requestURL exProcessor exOrder) v)))"
    for v
    by (rule processOrder_written [where status = 200])
       (simp_all add: sysLongLine_def sysOK_def sysStatus500_def)
  have line: "scanLine exProcessor sysLongLine ''{1}'' 0 ([], v) =
      ([], emit [Log Info (Processed (OrderID exOrder))]
             (append_output (''OK'' @ [CHR 0x0A])
               (request (requestURL exProcessor exOrder)
                 (emit [Log Info (ProcessingOrder exOrder)] v))))" for v
    using exLine_not_blank files(5) exOrder_matches
    by (simp add: scanLine_delivered [OF _ _ _ po])
  have run: "Process exProcessor sysLongLine world0 =
      (Some (ReadInputError ErrTooLong),
       emit [Log Info (Processed (OrderID exOrder))]
             (append_output (''OK'' @ [CHR 0x0A])
               (request (requestURL exProcessor exOrder)
                 (emit [Log Info (ProcessingOrder exOrder)] (world0\<lparr>output_file := []\<rparr>)))))"
    by (simp add: Process_def files line)
  show ?thesis
    by (simp add: files run world_simps)
qed

end
